theory Spec2Isabelle
  imports Main "HOL-Library.AList" "HOL-Library.Product_Lexorder" "HOL-Library.Sublist"
    "HOL-Library.Word" "HOL-Library.Multiset"
begin

section \<open>Data model of the peer daemon\<close>

text \<open>
  The embedding follows \<^verbatim>\<open>src/src/daemon.py\<close> and \<^verbatim>\<open>src/src/peer_protocol.py\<close>.
  Python dictionaries are association lists in insertion order (a store to an existing key
  replaces the value in place, a store to a new key appends, as \<open>AList.update\<close> does).
  The sets the daemon keeps (the hash-set of a catalog entry, \<^verbatim>\<open>_own_request\<close>) are
  duplicate-free lists: \<open>set\<close> of the list is the Python set, a loop over the set takes
  the elements as the list has them, and the statements say nothing on which order that is.
  The set that \<^verbatim>\<open>getIds\<close> builds from the keys of the catalog is iterated in an order
  the language does not fix either: that order is a parameter of the model, and the theorems
  hold for every order.
  Exceptions are values of type \<open>error\<close>; a function that can raise returns \<open>error + 'a\<close>.
  Every message is handled in a thread of its own (\<^verbatim>\<open>Thread(target=self.action)\<close>), so an
  exception ends the handler and the daemon goes on from the state the handler left; the
  handlers are modelled one at a time, not interleaved.
\<close>

datatype error = KeyError | ValueError | AttributeError | TypeError | ZeroDivisionError
  | FileNotFoundError | OSError | PeerProtoBadFormat

type_synonym peer_id = int
type_synonym hashcode = string
type_synonym address = "(string \<times> int) option"  \<comment> \<open>\<open>None\<close> is the empty tuple \<^verbatim>\<open>tuple()\<close>\<close>
type_synonym conn = nat

text \<open>One catalog entry \<^verbatim>\<open>{"addr": .., "hash": .., "size": ..}\<close> of \<^verbatim>\<open>_net_info\<close>.\<close>

record entry =
  addr :: address
  hash :: "hashcode list"
  fsize :: int

type_synonym net_info = "(peer_id \<times> entry) list"

definition bindE :: "error + 'a \<Rightarrow> ('a \<Rightarrow> error + 'b) \<Rightarrow> error + 'b" where
  "bindE r f = (case r of Inl e \<Rightarrow> Inl e | Inr x \<Rightarrow> f x)"

text \<open>\<^verbatim>\<open>d[k]\<close>: raises \<^verbatim>\<open>KeyError\<close> on a missing key.\<close>

definition dict_get :: "('k \<times> 'v) list \<Rightarrow> 'k \<Rightarrow> error + 'v" where
  "dict_get m k = (case map_of m k of None \<Rightarrow> Inl KeyError | Some v \<Rightarrow> Inr v)"

text \<open>\<^verbatim>\<open>s.add(x)\<close> and \<^verbatim>\<open>s.discard(x)\<close> on a set.\<close>

definition set_add :: "'a \<Rightarrow> 'a list \<Rightarrow> 'a list" where
  "set_add x xs = (if x \<in> set xs then xs else xs @ [x])"

definition set_discard :: "'a \<Rightarrow> 'a list \<Rightarrow> 'a list" where
  "set_discard x xs = removeAll x xs"

text \<open>A loop whose body can raise: the first exception ends it.\<close>

fun foldE :: "('a \<Rightarrow> 's \<Rightarrow> error + 's) \<Rightarrow> 'a list \<Rightarrow> 's \<Rightarrow> error + 's" where
  "foldE f [] s = Inr s"
| "foldE f (x # xs) s = bindE (f x s) (foldE f xs)"

text \<open>
  Where the state that an exception leaves behind matters, a run has an \<open>outcome\<close>: the state
  it left and the exception that ended it, if any. \<open>try_step\<close> is a statement that raises
  before it writes anything, \<open>and_then\<close> is sequencing, and \<open>for_each\<close> a loop whose rounds
  are such statements: the rounds before the one that raised are kept.
\<close>

type_synonym 's outcome = "'s \<times> error option"

definition try_step :: "('s \<Rightarrow> error + 's) \<Rightarrow> 's \<Rightarrow> 's outcome" where
  "try_step f s = (case f s of Inl e \<Rightarrow> (s, Some e) | Inr s' \<Rightarrow> (s', None))"

definition and_then :: "'s outcome \<Rightarrow> ('s \<Rightarrow> 's outcome) \<Rightarrow> 's outcome" where
  "and_then r f = (case r of (s, None) \<Rightarrow> f s | (s, Some e) \<Rightarrow> (s, Some e))"

fun for_each :: "('a \<Rightarrow> 's \<Rightarrow> error + 's) \<Rightarrow> 'a list \<Rightarrow> 's \<Rightarrow> 's outcome" where
  "for_each f [] s = (s, None)"
| "for_each f (x # xs) s = and_then (try_step (f x) s) (for_each f xs)"

fun mapE :: "('a \<Rightarrow> error + 'b) \<Rightarrow> 'a list \<Rightarrow> error + 'b list" where
  "mapE f [] = Inr []"
| "mapE f (x # xs) = bindE (f x) (\<lambda>y. bindE (mapE f xs) (\<lambda>ys. Inr (y # ys)))"

section \<open>Network catalog: accessors and mutators\<close>

definition default_entry :: entry where
  "default_entry = \<lparr>addr = None, hash = [], fsize = 0\<rparr>"

text \<open>
  \<^verbatim>\<open>getIds\<close> returns \<^verbatim>\<open>set(self._net_info.keys())\<close>. The loops over it see its
  elements in the iteration order of that set, which depends on the interpreter and on the
  keys, not on the order of the dictionary. A \<open>set_order\<close> gives, for the keys of the
  dictionary, the rank of each key in the iteration; as it ranges over all functions,
  \<open>getIds\<close> ranges over all arrangements of the keys.
\<close>

type_synonym set_order = "peer_id list \<Rightarrow> peer_id \<Rightarrow> nat"

definition getIds :: "set_order \<Rightarrow> net_info \<Rightarrow> peer_id list" where
  "getIds ord c = (let keys = remdups (map fst c) in sort_key (ord keys) keys)"

text \<open>
  \<^verbatim>\<open>if id not in self.getIds(): self._net_info[id] = {default}\<close>, the guard shared by
  \<^verbatim>\<open>setAddr\<close>, \<^verbatim>\<open>addHash\<close> and \<^verbatim>\<open>setSize\<close>.
\<close>

definition ensure_entry :: "set_order \<Rightarrow> net_info \<Rightarrow> peer_id \<Rightarrow> net_info" where
  "ensure_entry ord c i = (if i \<notin> set (getIds ord c) then AList.update i default_entry c else c)"

definition setAddr :: "set_order \<Rightarrow> net_info \<Rightarrow> peer_id \<Rightarrow> address \<Rightarrow> error + net_info" where
  "setAddr ord c i a =
     (let c' = ensure_entry ord c i
      in bindE (dict_get c' i) (\<lambda>e. Inr (AList.update i (e\<lparr>addr := a\<rparr>) c')))"

definition getAddr :: "net_info \<Rightarrow> peer_id \<Rightarrow> error + address" where
  "getAddr c i = bindE (dict_get c i) (\<lambda>e. Inr (addr e))"

definition addHash :: "set_order \<Rightarrow> net_info \<Rightarrow> peer_id \<Rightarrow> hashcode \<Rightarrow> error + net_info" where
  "addHash ord c i h =
     (let c' = ensure_entry ord c i
      in bindE (dict_get c' i) (\<lambda>e. Inr (AList.update i (e\<lparr>hash := set_add h (hash e)\<rparr>) c')))"

definition removeHash :: "net_info \<Rightarrow> peer_id \<Rightarrow> hashcode \<Rightarrow> error + net_info" where
  "removeHash c i h =
     bindE (dict_get c i) (\<lambda>e. Inr (AList.update i (e\<lparr>hash := set_discard h (hash e)\<rparr>) c))"

definition getHashes :: "net_info \<Rightarrow> peer_id \<Rightarrow> error + hashcode list" where
  "getHashes c i = bindE (dict_get c i) (\<lambda>e. Inr (hash e))"

definition getNetHashes :: "set_order \<Rightarrow> net_info \<Rightarrow> error + hashcode list" where
  "getNetHashes ord c =
     foldE (\<lambda>i hashes. bindE (getHashes c i) (\<lambda>hs. Inr (fold set_add hs hashes))) (getIds ord c) []"

definition setSize :: "set_order \<Rightarrow> net_info \<Rightarrow> peer_id \<Rightarrow> int \<Rightarrow> error + net_info" where
  "setSize ord c i n =
     (let c' = ensure_entry ord c i
      in bindE (dict_get c' i) (\<lambda>e. Inr (AList.update i (e\<lparr>fsize := n\<rparr>) c')))"

definition getSize :: "net_info \<Rightarrow> peer_id \<Rightarrow> error + int" where
  "getSize c i = bindE (dict_get c i) (\<lambda>e. Inr (fsize e))"

text \<open>
  \<^verbatim>\<open>getIdByHash\<close>: the first id, in the iteration order of \<^verbatim>\<open>getIds\<close>, whose hash-set holds the hash;
  Python falls off the end of the function and returns \<^verbatim>\<open>None\<close> when there is none.
\<close>

fun getIdByHash_loop :: "net_info \<Rightarrow> peer_id list \<Rightarrow> hashcode \<Rightarrow> error + peer_id option" where
  "getIdByHash_loop c [] h = Inr None"
| "getIdByHash_loop c (i # is) h =
     bindE (getHashes c i) (\<lambda>hs. if h \<in> set hs then Inr (Some i) else getIdByHash_loop c is h)"

definition getIdByHash :: "set_order \<Rightarrow> net_info \<Rightarrow> hashcode \<Rightarrow> error + peer_id option" where
  "getIdByHash ord c h = getIdByHash_loop c (getIds ord c) h"

section \<open>Update deltas\<close>

text \<open>
  A partial record of an \<^verbatim>\<open>update\<close> message: each of the keys \<^verbatim>\<open>addr\<close>, \<^verbatim>\<open>hash\<close>
  and \<^verbatim>\<open>size\<close> may be absent.
\<close>

record delta =
  d_addr :: "address option"
  d_hash :: "hashcode list option"
  d_size :: "int option"

type_synonym deltas = "(peer_id \<times> delta) list"

text \<open>The body of \<^verbatim>\<open>for id, info in msg.add.items()\<close>.\<close>

definition add_info :: "set_order \<Rightarrow> peer_id \<times> delta \<Rightarrow> net_info \<Rightarrow> error + net_info" where
  "add_info ord p c =
     (let i = fst p; info = snd p in
      bindE (case d_addr info of None \<Rightarrow> Inr c | Some a \<Rightarrow> setAddr ord c i a) (\<lambda>c1.
      bindE (case d_hash info of None \<Rightarrow> Inr c1
             | Some hs \<Rightarrow> foldE (\<lambda>h c'. addHash ord c' i h) hs c1) (\<lambda>c2.
      (case d_size info of None \<Rightarrow> Inr c2 | Some n \<Rightarrow> setSize ord c2 i n))))"

text \<open>The body of \<^verbatim>\<open>for id, info in msg.rem.items()\<close>.\<close>

definition rem_info :: "set_order \<Rightarrow> peer_id \<times> delta \<Rightarrow> net_info \<Rightarrow> error + net_info" where
  "rem_info ord p c =
     (let i = fst p; info = snd p in
      bindE (case d_addr info of None \<Rightarrow> Inr c | Some a \<Rightarrow> setAddr ord c i None) (\<lambda>c1.
      bindE (case d_hash info of None \<Rightarrow> Inr c1
             | Some hs \<Rightarrow> foldE (\<lambda>h c'. removeHash c' i h) hs c1) (\<lambda>c2.
      (case d_size info of None \<Rightarrow> Inr c2 | Some n \<Rightarrow> setSize ord c2 i 0))))"

definition apply_add :: "set_order \<Rightarrow> deltas \<Rightarrow> net_info \<Rightarrow> error + net_info" where
  "apply_add ord add c = foldE (add_info ord) add c"

text \<open>
  The second loop. A round raises only in \<^verbatim>\<open>removeHash\<close>, for an id without entry, and
  has written nothing by then (the ids \<^verbatim>\<open>setAddr\<close> has touched have an entry), so the
  rounds are statements of the kind \<open>for_each\<close> takes.
\<close>

definition apply_rem :: "set_order \<Rightarrow> deltas \<Rightarrow> net_info \<Rightarrow> net_info outcome" where
  "apply_rem ord rem c = for_each (rem_info ord) rem c"

text \<open>
  Both loops of the \<^verbatim>\<open>update\<close> branch of \<^verbatim>\<open>action\<close>, in the order of the source. The
  first loop never raises.
\<close>

definition apply_update :: "set_order \<Rightarrow> deltas \<Rightarrow> deltas \<Rightarrow> net_info \<Rightarrow> net_info outcome" where
  "apply_update ord add rem c = and_then (try_step (apply_add ord add) c) (apply_rem ord rem)"

section \<open>Files, messages and the state of a daemon\<close>

text \<open>
  A file of the daemon's folder, reduced to what the daemon reads from it: the perceptual hash
  \<^verbatim>\<open>imagehash.average_hash\<close> computes, the dimensions and the number of colours
  \<^verbatim>\<open>compareImages\<close> reads, and the size in bytes \<^verbatim>\<open>os.path.getsize\<close> reports. The same
  record stands for the image carried by an \<^verbatim>\<open>image\<close> message. The folder is the list of
  its files by name, in the order of \<^verbatim>\<open>os.listdir\<close>; file names are plain names.
  Outside the model: a failing connect or send, the image library failing to read a file
  of the folder, and the closing of a socket.
\<close>

record img =
  phash :: hashcode
  width :: nat
  height :: nat
  colours :: nat
  nbytes :: int

type_synonym folder = "(string \<times> img) list"

datatype message =
    JoinMessage address
  | ConfigMessage peer_id peer_id net_info
  | UpdateMessage peer_id deltas deltas
  | RequestImageMessage peer_id hashcode
  | ImageMessage peer_id hashcode img string bool
  | RequestListMessage peer_id
  | ListMessage "hashcode list"

text \<open>
  Where a message goes: the socket \<^verbatim>\<open>getSendConn(id)\<close> gives for a peer, a connection
  that was accepted (a client's), or the socket of the join.
\<close>

datatype dest = ToPeer peer_id | ToConn conn | ToJoinSock

text \<open>
  The fields of \<^verbatim>\<open>Daemon\<close>. \<open>self_id\<close> is \<^verbatim>\<open>_id\<close>, an attribute that does not exist
  before the constructor of the first peer or the \<^verbatim>\<open>config\<close> handler assigns it;
  \<open>send_conn\<close> holds the keys of \<^verbatim>\<open>_send_conn\<close>; \<open>join_sock\<close> says whether
  \<^verbatim>\<open>_join_sock\<close> exists; \<open>disk\<close> is the content of the folder and \<open>sent\<close> the
  calls of \<^verbatim>\<open>PeerProto.send_msg\<close> so far, oldest first. Two fields stand for the
  process the daemon runs in and are never assigned: \<open>set_order\<close>, the iteration order of
  the sets of ids, and \<open>image_save\<close>, what \<^verbatim>\<open>Image.save\<close> does with a path, a format
  and an image: \<open>None\<close> when it writes the file, the exception it raises otherwise (the
  library raises \<^verbatim>\<open>ValueError\<close> for a name whose extension it does not know when no
  format is given, and \<^verbatim>\<open>OSError\<close> when it cannot write).
\<close>

record daemon =
  self_addr :: address
  folder_path :: string
  images :: "(hashcode \<times> string) list"
  net_info :: net_info
  send_conn :: "peer_id list"
  recv_conn :: "(peer_id \<times> conn) list"
  own_request :: "hashcode list"
  client_request :: "(conn \<times> hashcode) list"
  self_id :: "peer_id option"
  join_sock :: bool
  disk :: folder
  sent :: "(dest \<times> message) list"
  set_order :: set_order
  image_save :: "string \<Rightarrow> string option \<Rightarrow> img \<Rightarrow> error option"

definition get_id :: "daemon \<Rightarrow> error + peer_id" where
  "get_id d = (case self_id d of None \<Rightarrow> Inl AttributeError | Some i \<Rightarrow> Inr i)"

text \<open>Catalog mutators as methods: they replace \<^verbatim>\<open>_net_info\<close> of the daemon.\<close>

definition on_net_info :: "(net_info \<Rightarrow> error + net_info) \<Rightarrow> daemon \<Rightarrow> error + daemon" where
  "on_net_info f d = bindE (f (net_info d)) (\<lambda>c. Inr (d\<lparr>net_info := c\<rparr>))"

subsection \<open>The folder\<close>

text \<open>\<^verbatim>\<open>os.path.join\<close> of two components.\<close>

definition os_path_join :: "string \<Rightarrow> string \<Rightarrow> string" where
  "os_path_join a b =
     (if prefix ''/'' b then b
      else if a = [] \<or> suffix ''/'' a then a @ b
      else a @ ''/'' @ b)"

definition fs_open :: "daemon \<Rightarrow> string \<Rightarrow> error + img" where
  "fs_open d path =
     (case find (\<lambda>(n, f). os_path_join (folder_path d) n = path) (disk d) of
        None \<Rightarrow> Inl FileNotFoundError | Some (n, f) \<Rightarrow> Inr f)"

definition fs_remove :: "daemon \<Rightarrow> string \<Rightarrow> error + daemon" where
  "fs_remove d path =
     (if \<exists>(n, f) \<in> set (disk d). os_path_join (folder_path d) n = path
      then Inr (d\<lparr>disk := filter (\<lambda>(n, f). os_path_join (folder_path d) n \<noteq> path) (disk d)\<rparr>)
      else Inl FileNotFoundError)"

definition getFolderSize :: "daemon \<Rightarrow> int" where
  "getFolderSize d = sum_list (map (\<lambda>(n, f). nbytes f) (filter (\<lambda>(n, f). \<not> prefix ''.'' n) (disk d)))"

text \<open>
  The first three statements of \<^verbatim>\<open>addImage\<close>: the path, the format, and
  \<^verbatim>\<open>image.save(image_path, format=format)\<close>, which raises or writes the file; then
  \<^verbatim>\<open>self._image[hash] = image_path\<close>.
\<close>

definition write_image :: "daemon \<Rightarrow> hashcode \<Rightarrow> img \<Rightarrow> string \<Rightarrow> error + daemon" where
  "write_image d h im fname =
     (let image_path = os_path_join (folder_path d) fname;
          format = (if fname = ''jpg'' then Some ''jpeg'' else None)
      in case image_save d image_path format im of
           Some e \<Rightarrow> Inl e
         | None \<Rightarrow>
             let d1 = d\<lparr>disk := AList.update fname im (disk d)\<rparr>
             in Inr (d1\<lparr>images := AList.update h image_path (images d1)\<rparr>))"

text \<open>
  \<^verbatim>\<open>addImage\<close>: the above, then \<^verbatim>\<open>self.setSize(self._id, self.getFolderSize())\<close>, which
  raises when there is no \<^verbatim>\<open>_id\<close>: the file and the index entry are written by then.
\<close>

definition addImage :: "daemon \<Rightarrow> hashcode \<Rightarrow> img \<Rightarrow> string \<Rightarrow> daemon outcome" where
  "addImage d h im fname =
     and_then (try_step (\<lambda>s. write_image s h im fname) d)
       (try_step (\<lambda>s. bindE (get_id s) (\<lambda>me.
                   on_net_info (\<lambda>c. setSize (set_order s) c me (getFolderSize s)) s)))"

definition getImage :: "daemon \<Rightarrow> hashcode \<Rightarrow> error + img" where
  "getImage d h = bindE (dict_get (images d) h) (\<lambda>image_path. fs_open d image_path)"

text \<open>\<^verbatim>\<open>self._image[hash].split("/")[-1]\<close>: what follows the last separator.\<close>

definition getFname :: "daemon \<Rightarrow> hashcode \<Rightarrow> error + string" where
  "getFname d h =
     bindE (dict_get (images d) h) (\<lambda>image_path. Inr (rev (takeWhile (\<lambda>c. c \<noteq> CHR ''/'') (rev image_path))))"

text \<open>
  \<^verbatim>\<open>compareImages\<close> returns the pair (path to keep, path to remove): more pixels win,
  then more colours, then the first argument.
\<close>

definition compareImages :: "daemon \<Rightarrow> string \<Rightarrow> string \<Rightarrow> error + string \<times> string" where
  "compareImages d image_path1 image_path2 =
     bindE (fs_open d image_path1) (\<lambda>image1.
     bindE (fs_open d image_path2) (\<lambda>image2.
       let image1_size = width image1 * height image1;
           image2_size = width image2 * height image2;
           n_image1_colours = colours image1;
           n_image2_colours = colours image2
       in if image1_size > image2_size then Inr (image_path1, image_path2)
          else if image1_size < image2_size then Inr (image_path2, image_path1)
          else if n_image1_colours > n_image2_colours then Inr (image_path1, image_path2)
          else if n_image1_colours < n_image2_colours then Inr (image_path2, image_path1)
          else Inr (image_path1, image_path2)))"

definition valid_ext :: "string \<Rightarrow> bool" where
  "valid_ext image_file \<longleftrightarrow>
     suffix ''.jpeg'' image_file \<or> suffix ''.jpg'' image_file \<or> suffix ''.png'' image_file"

text \<open>
  One round of the loop of \<^verbatim>\<open>parseFolder\<close> over \<^verbatim>\<open>os.listdir\<close>; the loop state is
  the daemon (for the folder) with \<^verbatim>\<open>image_tmp\<close> and \<^verbatim>\<open>hashes_tmp\<close>.
\<close>

type_synonym parse_state = "daemon \<times> (hashcode \<times> string) list \<times> hashcode list"

definition parse_file :: "string \<Rightarrow> parse_state \<Rightarrow> error + parse_state" where
  "parse_file image_file st =
     (case st of (d, image_tmp, hashes_tmp) \<Rightarrow>
      let image_path = os_path_join (folder_path d) image_file in
      if \<not> valid_ext image_file
      then bindE (fs_remove d image_path) (\<lambda>d'. Inr (d', image_tmp, hashes_tmp))
      else
        bindE (fs_open d image_path) (\<lambda>image.
        let h = phash image in
        if h \<in> set (map fst image_tmp) then
          bindE (dict_get image_tmp h) (\<lambda>similar_image_path.
          bindE (compareImages d similar_image_path image_path) (\<lambda>comparison_result.
          bindE (fs_remove d (snd comparison_result)) (\<lambda>d'.
          Inr (d', AList.update h (fst comparison_result) image_tmp, hashes_tmp))))
        else
          bindE (getNetHashes (set_order d) (net_info d)) (\<lambda>net_hashes.
          if h \<in> set net_hashes
          then bindE (fs_remove d image_path) (\<lambda>d'. Inr (d', image_tmp, hashes_tmp))
          else Inr (d, AList.update h image_path image_tmp, set_add h hashes_tmp))))"

definition parseFolder :: "daemon \<Rightarrow> error + daemon" where
  "parseFolder d =
     bindE (foldE parse_file (map fst (disk d)) (d, [], [])) (\<lambda>(d1, image_tmp, hashes_tmp).
     let d2 = d1\<lparr>images := fold (\<lambda>(h, image_path) m. AList.update h image_path m) image_tmp (images d1)\<rparr> in
     bindE (foldE (\<lambda>h s. bindE (get_id s) (\<lambda>me. on_net_info (\<lambda>c. addHash (set_order s) c me h) s)) hashes_tmp d2) (\<lambda>d3.
     bindE (get_id d3) (\<lambda>me. on_net_info (\<lambda>c. setSize (set_order d3) c me (getFolderSize d3)) d3)))"

subsection \<open>Sending\<close>

text \<open>
  \<^verbatim>\<open>getSendConn\<close> opens a socket to the catalog address of a peer it has none for:
  \<^verbatim>\<open>getAddr\<close> raises for an unknown peer and \<^verbatim>\<open>connect\<close> for the empty address.
\<close>

definition getSendConn :: "daemon \<Rightarrow> peer_id \<Rightarrow> error + daemon" where
  "getSendConn d i =
     (if i \<in> set (send_conn d) then Inr d
      else bindE (getAddr (net_info d) i) (\<lambda>id_addr.
           case id_addr of None \<Rightarrow> Inl TypeError
           | Some a \<Rightarrow> Inr (d\<lparr>send_conn := send_conn d @ [i]\<rparr>)))"

definition send_peer :: "daemon \<Rightarrow> peer_id \<Rightarrow> message \<Rightarrow> error + daemon" where
  "send_peer d i m = bindE (getSendConn d i) (\<lambda>d'. Inr (d'\<lparr>sent := sent d' @ [(ToPeer i, m)]\<rparr>))"

definition send_on :: "daemon \<Rightarrow> conn \<Rightarrow> message \<Rightarrow> daemon" where
  "send_on d c m = d\<lparr>sent := sent d @ [(ToConn c, m)]\<rparr>"

text \<open>\<^verbatim>\<open>for id in self.getIds(): if id != self._id: send_msg(getSendConn(id), update_msg)\<close>\<close>

definition broadcast :: "peer_id \<Rightarrow> message \<Rightarrow> daemon \<Rightarrow> error + daemon" where
  "broadcast me update_msg d =
     foldE (\<lambda>i s. if i \<noteq> me then send_peer s i update_msg else Inr s)
       (getIds (set_order d) (net_info d)) d"

section \<open>The handlers of \<^verbatim>\<open>action\<close>\<close>

subsection \<open>join\<close>

definition action_join :: "daemon \<Rightarrow> conn \<Rightarrow> address \<Rightarrow> error + daemon" where
  "action_join d conn a =
     (if getIds (set_order d) (net_info d) = [] then Inl ValueError
      else
        let new_id = Max (set (getIds (set_order d) (net_info d))) + 1 in
        bindE (on_net_info (\<lambda>c. setAddr (set_order d) c new_id a) d) (\<lambda>d0.
        let d1 = d0\<lparr>recv_conn := AList.update new_id conn (recv_conn d0)\<rparr> in
        bindE (get_id d1) (\<lambda>me.
        bindE (send_peer d1 new_id (ConfigMessage me new_id (net_info d1))) (\<lambda>d2.
        bindE (getAddr (net_info d2) new_id) (\<lambda>new_addr.
        let update_msg = UpdateMessage me
              [(new_id, \<lparr>d_addr = Some new_addr, d_hash = None, d_size = None\<rparr>)] [] in
        bindE (foldE (\<lambda>i s. if i \<noteq> new_id \<and> i \<noteq> me then send_peer s i update_msg else Inr s)
                 (getIds (set_order d2) (net_info d2)) d2) (\<lambda>d3.
        if length (getIds (set_order d3) (net_info d3)) = 2
        then bindE (getHashes (net_info d3) me) (\<lambda>hs.
             foldE (\<lambda>h s. bindE (getImage s h) (\<lambda>im. bindE (getFname s h) (\<lambda>fn.
                      send_peer s new_id (ImageMessage me h im fn True)))) hs d3)
        else Inr d3))))))"

subsection \<open>config\<close>

text \<open>
  The inner \<^verbatim>\<open>while True\<close> of the distribution: advance the index around the list until
  it points at an id other than self. The loop has no other exit, so the model is a partial
  function and \<open>None\<close> says that it does not return.
\<close>

partial_function (option) next_peer :: "peer_id list \<Rightarrow> peer_id \<Rightarrow> nat \<Rightarrow> (error + nat) option" where
  "next_peer ids me i =
     (if length ids = 0 then Some (Inl ZeroDivisionError)
      else let i' = (i + 1) mod length ids in
           if ids ! i' \<noteq> me then Some (Inr i') else next_peer ids me i')"

text \<open>What the loop does with the index it stops at: one \<^verbatim>\<open>image\<close> message with the store flag.\<close>

definition place :: "peer_id list \<Rightarrow> peer_id \<Rightarrow> hashcode \<Rightarrow> nat \<Rightarrow> daemon \<Rightarrow> error + daemon" where
  "place ids me h i d =
     bindE (getImage d h) (\<lambda>im. bindE (getFname d h) (\<lambda>fn.
       send_peer d (ids ! i) (ImageMessage me h im fn True)))"

fun distribute :: "peer_id list \<Rightarrow> peer_id \<Rightarrow> hashcode list \<Rightarrow> nat \<Rightarrow> daemon \<Rightarrow> (error + daemon) option" where
  "distribute ids me [] i d = Some (Inr d)"
| "distribute ids me (h # hs) i d =
     (case next_peer ids me i of
        None \<Rightarrow> None
      | Some (Inl e) \<Rightarrow> Some (Inl e)
      | Some (Inr i') \<Rightarrow>
          (case place ids me h i' d of
             Inl e \<Rightarrow> Some (Inl e)
           | Inr d' \<Rightarrow> distribute ids me hs i' d'))"

text \<open>The handler up to the distribution: configure, parse the folder, broadcast the update.\<close>

definition config_prepare :: "daemon \<Rightarrow> peer_id \<Rightarrow> peer_id \<Rightarrow> net_info \<Rightarrow> error + daemon" where
  "config_prepare d from_id new_id ni =
     (let d1 = d\<lparr>self_id := Some new_id, net_info := ni\<rparr> in
      if \<not> join_sock d1 then Inl AttributeError
      else
        let d2 = d1\<lparr>send_conn := set_add from_id (send_conn d1)\<rparr> in
        bindE (parseFolder d2) (\<lambda>d3.
        bindE (getHashes (net_info d3) new_id) (\<lambda>hs.
        bindE (getSize (net_info d3) new_id) (\<lambda>n.
        broadcast new_id (UpdateMessage new_id
            [(new_id, \<lparr>d_addr = None, d_hash = Some hs, d_size = Some n\<rparr>)] []) d3))))"

definition action_config :: "daemon \<Rightarrow> peer_id \<Rightarrow> peer_id \<Rightarrow> net_info \<Rightarrow> (error + daemon) option" where
  "action_config d from_id new_id ni =
     (case config_prepare d from_id new_id ni of
        Inl e \<Rightarrow> Some (Inl e)
      | Inr d4 \<Rightarrow>
          (case getHashes (net_info d4) new_id of
             Inl e \<Rightarrow> Some (Inl e)
           | Inr hashes \<Rightarrow> distribute (getIds (set_order d4) (net_info d4)) new_id hashes 0 d4))"

subsection \<open>update\<close>

definition action_update :: "daemon \<Rightarrow> peer_id \<Rightarrow> deltas \<Rightarrow> deltas \<Rightarrow> daemon outcome" where
  "action_update d from_id add rem =
     (case apply_update (set_order d) add rem (net_info d) of (c, r) \<Rightarrow>
      and_then (d\<lparr>net_info := c\<rparr>, r) (\<lambda>d1.
      if from_id \<notin> set (send_conn d1)
      then try_step (\<lambda>s. bindE (get_id s) (\<lambda>me. send_peer s from_id (UpdateMessage me [] []))) d1
      else (d1, None)))"

subsection \<open>image\<close>

text \<open>
  The handler of an \<^verbatim>\<open>image\<close> message has an outcome. The first loop relays the image
  to every client waiting for this hash.
\<close>

definition relay :: "hashcode \<Rightarrow> img \<Rightarrow> string \<Rightarrow> daemon \<Rightarrow> daemon outcome" where
  "relay h im fname d =
     for_each (\<lambda>(conn, hash') s.
              if hash' = h
              then bindE (get_id s) (\<lambda>me. Inr (send_on s conn (ImageMessage me h im fname False)))
              else Inr s) (client_request d) d"

text \<open>
  The body of \<^verbatim>\<open>if msg.hash in self._own_request or msg.store == True\<close>: the discard,
  \<^verbatim>\<open>addImage\<close>, \<^verbatim>\<open>addHash\<close>, the update message and the loop that sends it.
\<close>

definition admit :: "hashcode \<Rightarrow> img \<Rightarrow> string \<Rightarrow> daemon \<Rightarrow> daemon outcome" where
  "admit h im fname d =
     and_then (addImage (d\<lparr>own_request := set_discard h (own_request d)\<rparr>) h im fname) (\<lambda>d3.
     and_then (try_step (\<lambda>s. bindE (get_id s) (\<lambda>me.
                 on_net_info (\<lambda>c. addHash (set_order s) c me h) s)) d3) (\<lambda>d4.
     case bindE (get_id d4) (\<lambda>me. bindE (getSize (net_info d4) me) (\<lambda>n. Inr (me, n))) of
       Inl e \<Rightarrow> (d4, Some e)
     | Inr (me, n) \<Rightarrow>
         for_each (\<lambda>i s. if i \<noteq> me
                          then send_peer s i (UpdateMessage me
                                 [(me, \<lparr>d_addr = None, d_hash = Some [h], d_size = Some n\<rparr>)] [])
                          else Inr s)
           (getIds (set_order d4) (net_info d4)) d4))"

definition action_image :: "daemon \<Rightarrow> peer_id \<Rightarrow> hashcode \<Rightarrow> img \<Rightarrow> string \<Rightarrow> bool \<Rightarrow> daemon outcome" where
  "action_image d from_id h im fname store =
     and_then (relay h im fname d) (\<lambda>d1.
     if h \<in> set (own_request d1) \<or> store then admit h im fname d1 else (d1, None))"

section \<open>The crash handler\<close>

text \<open>The body of \<^verbatim>\<open>for hash in hashes_crashed\<close>.\<close>

definition recover_hash :: "peer_id \<Rightarrow> peer_id \<Rightarrow> hashcode \<Rightarrow> daemon \<Rightarrow> error + daemon" where
  "recover_hash me id_backup h d =
     bindE (getIdByHash (set_order d) (net_info d) h) (\<lambda>id_hash.
     case id_hash of
       Some owner \<Rightarrow>
         if owner \<noteq> me
         then send_peer (d\<lparr>own_request := set_add h (own_request d)\<rparr>) owner
                (RequestImageMessage me h)
         else bindE (getImage d h) (\<lambda>im. bindE (getFname d h) (\<lambda>fn.
                send_peer d id_backup (ImageMessage me h im fn True)))
     | None \<Rightarrow> Inr d)"

text \<open>\<^verbatim>\<open>[id for _, id in sorted(zip(sizes, ids))]\<close>; pairs are ordered lexicographically.\<close>

definition ids_sorted :: "set_order \<Rightarrow> net_info \<Rightarrow> error + peer_id list" where
  "ids_sorted ord c =
     (let ids = getIds ord c in
      bindE (mapE (getSize c) ids) (\<lambda>sizes. Inr (map snd (sort (zip sizes ids)))))"

definition crashHandler :: "daemon \<Rightarrow> peer_id \<Rightarrow> error + daemon" where
  "crashHandler d i =
     bindE (getHashes (net_info d) i) (\<lambda>hashes_crashed.
     let d1 = d\<lparr>net_info := AList.delete i (net_info d)\<rparr> in
     bindE (ids_sorted (set_order d1) (net_info d1)) (\<lambda>sorted_ids.
     if length sorted_ids = 1 then Inr d1
     else
       (case take 2 sorted_ids of
          [id_designated, id_backup] \<Rightarrow>
            bindE (get_id d1) (\<lambda>me.
            if me \<noteq> id_designated then Inr d1
            else foldE (recover_hash me id_backup) hashes_crashed d1)
        | _ \<Rightarrow> Inl ValueError)))"

section \<open>The constructor\<close>

text \<open>
  \<^verbatim>\<open>Daemon.__init__\<close>, given the folder with its files and the process (\<open>ord\<close> and
  \<open>save\<close>, see the fields above).
\<close>

definition Daemon_init ::
  "set_order \<Rightarrow> (string \<Rightarrow> string option \<Rightarrow> img \<Rightarrow> error option) \<Rightarrow>
   string \<Rightarrow> address \<Rightarrow> address \<Rightarrow> folder \<Rightarrow> error + daemon" where
  "Daemon_init ord save folder a join_addr files =
     (let d = \<lparr>self_addr = a, folder_path = folder, images = [], net_info = [], send_conn = [],
               recv_conn = [], own_request = [], client_request = [], self_id = None,
               join_sock = False, disk = files, sent = [], set_order = ord, image_save = save\<rparr>
      in case join_addr of
           None \<Rightarrow> bindE (on_net_info (\<lambda>c. setAddr ord c 1 a) (d\<lparr>self_id := Some 1\<rparr>)) parseFolder
         | Some ja \<Rightarrow> Inr (d\<lparr>join_sock := True, sent := [(ToJoinSock, JoinMessage a)]\<rparr>))"

section \<open>Receiving a frame\<close>

text \<open>
  A connection, as the receiver sees it: whether the socket is closed (\<^verbatim>\<open>fileno() == -1\<close>)
  and the chunks still to arrive, after which the stream is at its end. \<^verbatim>\<open>recv(n)\<close>
  returns at most \<open>n\<close> bytes of the next chunk, and the empty string at the end of the stream.
\<close>

type_synonym byte = "8 word"

record sock =
  closed :: bool
  incoming :: "byte list list"

fun recv :: "byte list list \<Rightarrow> nat \<Rightarrow> byte list \<times> byte list list" where
  "recv [] n = ([], [])"
| "recv (chunk # rest) n =
     (if length chunk \<le> n then (chunk, rest) else (take n chunk, drop n chunk # rest))"

definition from_bytes_big :: "byte list \<Rightarrow> nat" where
  "from_bytes_big bs = foldl (\<lambda>acc b. acc * 256 + unat b) 0 bs"

text \<open>\<^verbatim>\<open>__recvall\<close>: \<^verbatim>\<open>while len(data) < n: data.extend(conn.recv(n - len(data)))\<close>.\<close>

partial_function (option) recvall :: "byte list list \<Rightarrow> nat \<Rightarrow> byte list \<Rightarrow> (byte list \<times> byte list list) option" where
  "recvall s n data =
     (if length data < n
      then (case recv s (n - length data) of (pack, s') \<Rightarrow> recvall s' n (data @ pack))
      else Some (data, s))"

text \<open>
  \<^verbatim>\<open>recv_msg\<close>. \<open>loads\<close> stands for \<^verbatim>\<open>pickle.loads\<close> and the construction of the
  message from the dictionary it yields. The result \<open>Inr None\<close> is the sentinel
  \<^verbatim>\<open>None\<close> of the source; the outer \<open>None\<close> says that the call does not return.
\<close>

definition recv_msg :: "(byte list \<Rightarrow> error + message) \<Rightarrow> sock \<Rightarrow> ((error + message option) \<times> sock) option" where
  "recv_msg loads conn =
     (if closed conn then Some (Inr None, conn)
      else
        (case recv (incoming conn) 4 of (pre, rest) \<Rightarrow>
         let mlen = from_bytes_big pre in
         if mlen = 0 then Some (Inr None, conn\<lparr>incoming := rest\<rparr>)
         else
           (case recvall rest mlen [] of
              None \<Rightarrow> None
            | Some (m, rest') \<Rightarrow>
                Some (case loads m of Inl e \<Rightarrow> Inl e | Inr msg \<Rightarrow> Inr (Some msg),
                      conn\<lparr>incoming := rest'\<rparr>))))"

section \<open>Notions used in the statements\<close>

text \<open>The entry a mutator works on: the one in the catalog, or the default it stores first.\<close>

definition entry_or_default :: "net_info \<Rightarrow> peer_id \<Rightarrow> entry" where
  "entry_or_default c i = (case map_of c i of None \<Rightarrow> default_entry | Some e \<Rightarrow> e)"

text \<open>
  \<^verbatim>\<open>getSendConn(i)\<close> succeeds: there is a socket for the peer already, or the catalog has
  an address to connect to.
\<close>

definition reachable :: "daemon \<Rightarrow> peer_id \<Rightarrow> bool" where
  "reachable d i \<longleftrightarrow>
     i \<in> set (send_conn d) \<or> (\<exists>e a. map_of (net_info d) i = Some e \<and> addr e = Some a)"

text \<open>
  What one pair of the add-map, and of the remove-map, of an \<^verbatim>\<open>update\<close> does to the
  entry of a peer: nothing unless the pair is for that peer.
\<close>

definition add_entry :: "peer_id \<Rightarrow> peer_id \<times> delta \<Rightarrow> entry \<Rightarrow> entry" where
  "add_entry j p e =
     (if fst p \<noteq> j then e
      else
        let e1 = (case d_addr (snd p) of None \<Rightarrow> e | Some a \<Rightarrow> e\<lparr>addr := a\<rparr>);
            e2 = (case d_hash (snd p) of None \<Rightarrow> e1 | Some hs \<Rightarrow> e1\<lparr>hash := fold set_add hs (hash e1)\<rparr>)
        in (case d_size (snd p) of None \<Rightarrow> e2 | Some n \<Rightarrow> e2\<lparr>fsize := n\<rparr>))"

definition rem_entry :: "peer_id \<Rightarrow> peer_id \<times> delta \<Rightarrow> entry \<Rightarrow> entry" where
  "rem_entry j p e =
     (if fst p \<noteq> j then e
      else
        let e1 = (case d_addr (snd p) of None \<Rightarrow> e | Some a \<Rightarrow> e\<lparr>addr := None\<rparr>);
            e2 = (case d_hash (snd p) of None \<Rightarrow> e1 | Some hs \<Rightarrow> e1\<lparr>hash := fold set_discard hs (hash e1)\<rparr>)
        in (case d_size (snd p) of None \<Rightarrow> e2 | Some n \<Rightarrow> e2\<lparr>fsize := 0\<rparr>))"

text \<open>
  A pair writes to the entry of its peer when it names an address, a size or a hash. The
  round of the remove loop for a pair raises when the pair names a hash and no address and
  its peer has no entry.
\<close>

definition writes_entry :: "peer_id \<times> delta \<Rightarrow> bool" where
  "writes_entry p \<longleftrightarrow> d_addr (snd p) \<noteq> None \<or> d_size (snd p) \<noteq> None
     \<or> (d_hash (snd p) \<noteq> None \<and> d_hash (snd p) \<noteq> Some [])"

definition rem_raises :: "net_info \<Rightarrow> peer_id \<times> delta \<Rightarrow> bool" where
  "rem_raises c p \<longleftrightarrow> d_addr (snd p) = None \<and> fst p \<notin> fst ` set c
     \<and> d_hash (snd p) \<noteq> None \<and> d_hash (snd p) \<noteq> Some []"

text \<open>
  One write: the entry of a peer, or the default entry if it has none, is replaced by its
  image under a function. Both loops are sequences of such writes.
\<close>

definition touch :: "peer_id \<times> (entry \<Rightarrow> entry) \<Rightarrow> net_info \<Rightarrow> net_info" where
  "touch op c = AList.update (fst op) (snd op (entry_or_default c (fst op))) c"

definition add_ops :: "deltas \<Rightarrow> (peer_id \<times> (entry \<Rightarrow> entry)) list" where
  "add_ops add = map (\<lambda>p. (fst p, add_entry (fst p) p)) (filter writes_entry add)"

definition rem_ops :: "deltas \<Rightarrow> (peer_id \<times> (entry \<Rightarrow> entry)) list" where
  "rem_ops rem = map (\<lambda>p. (fst p, rem_entry (fst p) p)) (filter writes_entry rem)"

text \<open>
  The process of the examples. The order is by the residue modulo 8, the slot a small
  integer takes in the smallest hash table of CPython: the ids 1, 2, 3 come out ascending,
  and 8 comes before 1. The library writes the formats the daemon keeps and rejects any
  other name when it is given no format.
\<close>

definition slot_order :: set_order where
  "slot_order keys k = nat (k mod 8)"

definition pil_save :: "string \<Rightarrow> string option \<Rightarrow> img \<Rightarrow> error option" where
  "pil_save path format im =
     (if format \<noteq> None \<or> valid_ext path then None else Some ValueError)"


text \<open>The first peer of that network while it is still alone, with one image in its folder.\<close>

definition peer1 :: daemon where
  "peer1 = \<lparr>self_addr = Some (''localhost'', 5000), folder_path = ''p1'',
     images = [(''ff00'', ''p1/a.png'')],
     net_info = [(1, \<lparr>addr = Some (''localhost'', 5000), hash = [''ff00''], fsize = 7\<rparr>)],
     send_conn = [], recv_conn = [], own_request = [], client_request = [],
     self_id = Some 1, join_sock = False,
     disk = [(''a.png'', \<lparr>phash = ''ff00'', width = 4, height = 2, colours = 3, nbytes = 7\<rparr>)],
     sent = [], set_order = slot_order, image_save = pil_save\<rparr>"

text \<open>
  Two views of one network of three peers in which every peer holds the image \<open>ff00\<close> and
  peer 3 alone holds \<open>0f0f\<close>: the state of peer 1, whose folder is the smallest, and the
  state of peer 2.
\<close>

definition recoverer :: daemon where
  "recoverer = \<lparr>self_addr = Some (''localhost'', 5000), folder_path = ''p1'',
     images = [(''ff00'', ''p1/a.png'')],
     net_info = [(1, \<lparr>addr = Some (''localhost'', 5000), hash = [''ff00''], fsize = 7\<rparr>),
                 (2, \<lparr>addr = Some (''localhost'', 5001), hash = [''ff00''], fsize = 9\<rparr>),
                 (3, \<lparr>addr = Some (''localhost'', 5002), hash = [''ff00'', ''0f0f''], fsize = 20\<rparr>)],
     send_conn = [2, 3], recv_conn = [(2, 4), (3, 5)], own_request = [], client_request = [],
     self_id = Some 1, join_sock = False,
     disk = [(''a.png'', \<lparr>phash = ''ff00'', width = 4, height = 2, colours = 3, nbytes = 7\<rparr>)],
     sent = [], set_order = slot_order, image_save = pil_save\<rparr>"

definition bystander :: daemon where
  "bystander = \<lparr>self_addr = Some (''localhost'', 5001), folder_path = ''p2'',
     images = [(''ff00'', ''p2/b.png'')],
     net_info = [(1, \<lparr>addr = Some (''localhost'', 5000), hash = [''ff00''], fsize = 7\<rparr>),
                 (2, \<lparr>addr = Some (''localhost'', 5001), hash = [''ff00''], fsize = 9\<rparr>),
                 (3, \<lparr>addr = Some (''localhost'', 5002), hash = [''ff00'', ''0f0f''], fsize = 20\<rparr>)],
     send_conn = [1, 3], recv_conn = [(1, 4), (3, 5)], own_request = [], client_request = [],
     self_id = Some 2, join_sock = True,
     disk = [(''b.png'', \<lparr>phash = ''ff00'', width = 4, height = 2, colours = 3, nbytes = 9\<rparr>)],
     sent = [], set_order = slot_order, image_save = pil_save\<rparr>"

text \<open>
  Peer 1 in a network of three where peer 3 holds three images: one that peer 1 holds too,
  one that peer 2 holds too, and one that no other peer holds.
\<close>

definition survivor :: daemon where
  "survivor = \<lparr>self_addr = Some (''localhost'', 5000), folder_path = ''p1'',
     images = [(''ff00'', ''p1/a.png'')],
     net_info = [(1, \<lparr>addr = Some (''localhost'', 5000), hash = [''ff00''], fsize = 7\<rparr>),
                 (2, \<lparr>addr = Some (''localhost'', 5001), hash = [''0f0f''], fsize = 9\<rparr>),
                 (3, \<lparr>addr = Some (''localhost'', 5002), hash = [''ff00'', ''0f0f'', ''3c3c''], fsize = 20\<rparr>)],
     send_conn = [3], recv_conn = [(2, 4), (3, 5)], own_request = [], client_request = [],
     self_id = Some 1, join_sock = False,
     disk = [(''a.png'', \<lparr>phash = ''ff00'', width = 4, height = 2, colours = 3, nbytes = 7\<rparr>)],
     sent = [], set_order = slot_order, image_save = pil_save\<rparr>"

text \<open>
  A peer that has sent its \<^verbatim>\<open>join\<close> and waits for the answer, the catalog the
  first peer sends it in the \<^verbatim>\<open>config\<close> message, and the state in which the handler of
  that message comes to the distribution of the images.
\<close>

definition joiner :: daemon where
  "joiner = \<lparr>self_addr = Some (''localhost'', 5001), folder_path = ''p2'', images = [],
     net_info = [], send_conn = [], recv_conn = [], own_request = [], client_request = [],
     self_id = None, join_sock = True,
     disk = [(''b.png'', \<lparr>phash = ''0f0f'', width = 2, height = 2, colours = 2, nbytes = 5\<rparr>)],
     sent = [(ToJoinSock, JoinMessage (Some (''localhost'', 5001)))],
     set_order = slot_order, image_save = pil_save\<rparr>"

definition cfg :: net_info where
  "cfg = [(1, \<lparr>addr = Some (''localhost'', 5000), hash = [''ff00''], fsize = 7\<rparr>),
          (2, \<lparr>addr = Some (''localhost'', 5001), hash = [], fsize = 0\<rparr>)]"

definition configured :: daemon where
  "configured = joiner\<lparr>self_id := Some 2,
       net_info := [(1, \<lparr>addr = Some (''localhost'', 5000), hash = [''ff00''], fsize = 7\<rparr>),
                    (2, \<lparr>addr = Some (''localhost'', 5001), hash = [''0f0f''], fsize = 5\<rparr>)],
       send_conn := [1], images := [(''0f0f'', ''p2/b.png'')],
       sent := [(ToJoinSock, JoinMessage (Some (''localhost'', 5001))),
                (ToPeer 1, UpdateMessage 2
                   [(2, \<lparr>d_addr = None, d_hash = Some [''0f0f''], d_size = Some 5\<rparr>)] [])]\<rparr>"

definition picture :: img where
  "picture = \<lparr>phash = ''ff00'', width = 4, height = 2, colours = 3, nbytes = 7\<rparr>"

section \<open>Basic facts\<close>

lemma bindE_Inr [simp]: "bindE (Inr x) f = f x"
  by (simp add: bindE_def)

lemma bindE_Inl [simp]: "bindE (Inl e) f = Inl e"
  by (simp add: bindE_def)

lemma bindE_eq_Inr: "bindE r f = Inr y \<longleftrightarrow> (\<exists>x. r = Inr x \<and> f x = Inr y)"
  by (cases r) simp_all

lemma dict_get_Inr: "dict_get m k = Inr v \<longleftrightarrow> map_of m k = Some v"
  by (simp add: dict_get_def split: option.splits)

lemma dict_get_mem: "k \<in> fst ` set m \<Longrightarrow> \<exists>v. dict_get m k = Inr v"
  by (cases "map_of m k") (auto simp: dict_get_def map_of_eq_None_iff)

lemma dict_get_update_same [simp]: "dict_get (AList.update k v m) k = Inr v"
  by (simp add: dict_get_def update_conv')

lemma dict_get_update_other [simp]:
  "k' \<noteq> k \<Longrightarrow> dict_get (AList.update k v m) k' = dict_get m k'"
  by (simp add: dict_get_def update_conv')

text \<open>Whatever the order, \<^verbatim>\<open>getIds\<close> holds the keys of the catalog, each once.\<close>

lemma set_getIds [simp]: "set (getIds ord c) = fst ` set c"
  by (simp add: getIds_def Let_def)

lemma distinct_getIds [simp]: "distinct (getIds ord c)"
  by (simp add: getIds_def Let_def)

lemma mset_getIds: "mset (getIds ord c) = mset (remdups (map fst c))"
  by (simp add: getIds_def Let_def)

lemma length_getIds: "length (getIds ord c) = card (fst ` set c)"
  using distinct_card [OF distinct_getIds, of ord c] by simp

lemma getIds_Nil [simp]: "getIds ord c = [] \<longleftrightarrow> c = []"
  using set_getIds [of ord c] by (metis image_is_empty set_empty)

lemma ensure_entry_mem: "i \<in> fst ` set (ensure_entry ord c i)"
  by (auto simp: ensure_entry_def dom_update)

lemma ensure_entry_get: "\<exists>e. dict_get (ensure_entry ord c i) i = Inr e"
  by (rule dict_get_mem) (rule ensure_entry_mem)

lemma ensure_entry_new:
  "i \<notin> set (getIds ord c) \<Longrightarrow> ensure_entry ord c i = c @ [(i, default_entry)]"
proof -
  have "k \<notin> fst ` set m \<Longrightarrow> AList.update k v m = m @ [(k, v)]" for k :: peer_id and v :: entry and m
    by (induction m) auto
  then show "i \<notin> set (getIds ord c) \<Longrightarrow> ensure_entry ord c i = c @ [(i, default_entry)]"
    by (simp add: ensure_entry_def)
qed

lemma setAddr_total: "\<exists>c'. setAddr ord c i a = Inr c'"
  using ensure_entry_get [of ord c i] by (auto simp: setAddr_def Let_def)

lemma addHash_total: "\<exists>c'. addHash ord c i h = Inr c'"
  using ensure_entry_get [of ord c i] by (auto simp: addHash_def Let_def)

lemma setSize_total: "\<exists>c'. setSize ord c i n = Inr c'"
  using ensure_entry_get [of ord c i] by (auto simp: setSize_def Let_def)

lemma foldE_total:
  assumes "\<And>x s. \<exists>s'. f x s = Inr s'"
  shows "\<exists>s'. foldE f xs s = Inr s'"
proof (induction xs arbitrary: s)
  case Nil
  show ?case by simp
next
  case (Cons x xs)
  from assms obtain s1 where "f x s = Inr s1" by blast
  with Cons show ?case by simp
qed

lemma add_info_total: "\<exists>c'. add_info ord p c = Inr c'"
proof -
  have "\<exists>c1. (case d_addr (snd p) of None \<Rightarrow> Inr c | Some a \<Rightarrow> setAddr ord c (fst p) a) = Inr c1"
    by (cases "d_addr (snd p)") (simp_all add: setAddr_total)
  then obtain c1 where c1: "(case d_addr (snd p) of None \<Rightarrow> Inr c | Some a \<Rightarrow> setAddr ord c (fst p) a) = Inr c1"
    by blast
  have "\<exists>s'. foldE (\<lambda>h c'. addHash ord c' (fst p) h) hs c1 = Inr s'" for hs
    by (rule foldE_total) (rule addHash_total)
  then have "\<exists>c2. (case d_hash (snd p) of None \<Rightarrow> Inr c1
             | Some hs \<Rightarrow> foldE (\<lambda>h c'. addHash ord c' (fst p) h) hs c1) = Inr c2"
    by (cases "d_hash (snd p)") simp_all
  then obtain c2 where c2: "(case d_hash (snd p) of None \<Rightarrow> Inr c1
             | Some hs \<Rightarrow> foldE (\<lambda>h c'. addHash ord c' (fst p) h) hs c1) = Inr c2"
    by blast
  have "\<exists>c3. (case d_size (snd p) of None \<Rightarrow> Inr c2 | Some n \<Rightarrow> setSize ord c2 (fst p) n) = Inr c3"
    by (cases "d_size (snd p)") (simp_all add: setSize_total)
  with c1 c2 show ?thesis by (simp add: add_info_def Let_def)
qed

lemma apply_add_total: "\<exists>c'. apply_add ord add c = Inr c'"
  unfolding apply_add_def by (rule foldE_total) (rule add_info_total)

section \<open>The catalog mutators are total\<close>

text \<open>
  C10. \<^verbatim>\<open>setAddr\<close>, \<^verbatim>\<open>addHash\<close> and \<^verbatim>\<open>setSize\<close> never raise, whatever the
  peer identifier: for an identifier with no catalog entry they first store the default entry
  (empty address, empty hash-set, size 0) and then set the field in it, so the loop of the
  \<^verbatim>\<open>update\<close> handler over the add-map of a message always runs to its end, also for
  identifiers the receiving peer has never seen.
\<close>

theorem mutators_total:
  "(\<exists>c'. setAddr ord c i a = Inr c') \<and> (\<exists>c'. addHash ord c i h = Inr c') \<and> (\<exists>c'. setSize ord c i n = Inr c')
   \<and> (i \<notin> set (getIds ord c) \<longrightarrow>
         setAddr ord c i a = Inr (c @ [(i, \<lparr>addr = a, hash = [], fsize = 0\<rparr>)])
       \<and> addHash ord c i h = Inr (c @ [(i, \<lparr>addr = None, hash = [h], fsize = 0\<rparr>)])
       \<and> setSize ord c i n = Inr (c @ [(i, \<lparr>addr = None, hash = [], fsize = n\<rparr>)]))
   \<and> (\<exists>c'. apply_add ord add c = Inr c')"
proof -
  have new: "i \<notin> set (getIds ord c) \<Longrightarrow> ensure_entry ord c i = c @ [(i, default_entry)]
      \<and> dict_get (c @ [(i, default_entry)]) i = Inr default_entry
      \<and> (\<forall>e. AList.update i e (c @ [(i, default_entry)]) = c @ [(i, e)])"
  proof -
    assume a: "i \<notin> set (getIds ord c)"
    have u: "k \<notin> fst ` set m \<Longrightarrow> AList.update k v (m @ [(k, w)]) = m @ [(k, v)]"
      for k :: peer_id and v w :: entry and m
      by (induction m) auto
    have g: "k \<notin> fst ` set m \<Longrightarrow> map_of (m @ [(k, w)]) k = Some w"
      for k :: peer_id and w :: entry and m
      by (induction m) auto
    from a show ?thesis
      using ensure_entry_new [OF a] u [of i c] g [of i c]
      by (simp add: dict_get_def)
  qed
  show ?thesis
    using setAddr_total [of ord c i a] addHash_total [of ord c i h] setSize_total [of ord c i n]
      apply_add_total [of ord add c] new
    by (auto simp: setAddr_def addHash_def setSize_def Let_def default_entry_def set_add_def)
qed

theorem mutators_total_witness:
  "(7::int) \<notin> set (getIds slot_order [(1, \<lparr>addr = Some (''localhost'', 5000), hash = [''ff00''], fsize = 10\<rparr>)])
   \<and> addHash slot_order [(1, \<lparr>addr = Some (''localhost'', 5000), hash = [''ff00''], fsize = 10\<rparr>)] 7 ''0f0f''
       = Inr [(1, \<lparr>addr = Some (''localhost'', 5000), hash = [''ff00''], fsize = 10\<rparr>),
              (7, \<lparr>addr = None, hash = [''0f0f''], fsize = 0\<rparr>)]"
  using mutators_total [of slot_order
      "[(1, \<lparr>addr = Some (''localhost'', 5000), hash = [''ff00''], fsize = 10\<rparr>)]"
      7 None "''0f0f''" 0 "[]"]
  by simp

section \<open>Receiving a frame: the end of the stream\<close>

lemma recv_total:
  "recv s k = (pack, s') \<Longrightarrow> length pack + sum_list (map length s') = sum_list (map length s)"
  by (cases s) (auto split: if_splits)

text \<open>If \<^verbatim>\<open>__recvall\<close> returns, the stream held at least the bytes that were missing.\<close>

lemma recvall_Some_enough:
  assumes "recvall s n data = Some y"
  shows "n \<le> length data + sum_list (map length s)"
proof (rule recvall.raw_induct [where P = "\<lambda>s n data y. n \<le> length data + sum_list (map length s)", OF _ assms])
  fix f s n data and y :: "byte list \<times> byte list list"
  assume IH: "\<And>s n data y. f s n data = Some y \<Longrightarrow> n \<le> length data + sum_list (map length s)"
    and body: "(if length data < n
      then (case recv s (n - length data) of (pack, s') \<Rightarrow> f s' n (data @ pack))
      else Some (data, s)) = Some y"
  show "n \<le> length data + sum_list (map length s)"
  proof (cases "length data < n")
    case True
    obtain pack s' where r: "recv s (n - length data) = (pack, s')"
      by (cases "recv s (n - length data)")
    with body True have "f s' n (data @ pack) = Some y" by simp
    from IH [OF this] recv_total [OF r] show ?thesis by simp
  next
    case False
    then show ?thesis by simp
  qed
qed

lemma recvall_short:
  "length data + sum_list (map length s) < n \<Longrightarrow> recvall s n data = None"
  using recvall_Some_enough [of s n data] by (cases "recvall s n data") auto

lemma recv_msg_zero_prefix:
  "\<not> closed conn \<Longrightarrow> recv (incoming conn) 4 = (pre, rest) \<Longrightarrow> from_bytes_big pre = 0
   \<Longrightarrow> recv_msg loads conn = Some (Inr None, conn\<lparr>incoming := rest\<rparr>)"
  by (simp add: recv_msg_def)

lemma recv_msg_short_read:
  "\<not> closed conn \<Longrightarrow> recv (incoming conn) 4 = (pre, rest) \<Longrightarrow> 0 < from_bytes_big pre
   \<Longrightarrow> sum_list (map length rest) < from_bytes_big pre
   \<Longrightarrow> recv_msg loads conn = None"
  using recvall_short [of "[]" rest "from_bytes_big pre"] by (simp add: recv_msg_def)

text \<open>
  C6. The claim: \<^verbatim>\<open>recv_msg\<close> returns the sentinel both for a length prefix of zero and
  for a stream that ends before the declared length has been read. The first half holds
  (\<open>recv_msg_zero_prefix\<close>). For the second the code does not return at all: at the end of
  the stream \<^verbatim>\<open>recv\<close> yields the empty string, \<^verbatim>\<open>__recvall\<close> appends it and asks again.
  Here the prefix announces five bytes and two arrive before the stream ends.
\<close>

theorem recv_msg_short_read_never_returns:
  "recv_msg loads \<lparr>closed = False, incoming = [[0, 0, 0, 5], [1, 2]]\<rparr> = None"
  using recvall_short [of "[]" "[[1, 2]]" 5]
  by (simp add: recv_msg_def from_bytes_big_def)

section \<open>The placement loop of the config handler\<close>

lemma next_peer_found:
  "0 < length ids \<Longrightarrow> ids ! ((i + Suc k) mod length ids) \<noteq> me
   \<Longrightarrow> (\<forall>k'<k. ids ! ((i + Suc k') mod length ids) = me)
   \<Longrightarrow> next_peer ids me i = Some (Inr ((i + Suc k) mod length ids))"
proof (induction k arbitrary: i)
  case 0
  then show ?case by (subst next_peer.simps) (simp add: Let_def)
next
  case (Suc k)
  let ?n = "length ids"
  let ?i' = "(i + 1) mod ?n"
  from Suc.prems(3) have "ids ! ((i + Suc 0) mod ?n) = me" by blast
  then have here: "ids ! ?i' = me" by simp
  have shift: "(?i' + Suc j) mod ?n = (i + Suc (Suc j)) mod ?n" for j
    by (metis Suc_eq_plus1 add_Suc_shift mod_add_left_eq)
  have "next_peer ids me ?i' = Some (Inr ((?i' + Suc k) mod ?n))"
  proof (rule Suc.IH)
    show "0 < ?n" by (rule Suc.prems(1))
    show "ids ! ((?i' + Suc k) mod ?n) \<noteq> me" using Suc.prems(2) unfolding shift .
    show "\<forall>k'<k. ids ! ((?i' + Suc k') mod ?n) = me"
      using Suc.prems(3) unfolding shift by auto
  qed
  then have "next_peer ids me ?i' = Some (Inr ((i + Suc (Suc k)) mod ?n))" by (simp only: shift)
  with here Suc.prems(1) show ?case by (subst next_peer.simps) (simp add: Let_def)
qed

lemma reach_index:
  assumes "p < n"
  shows "\<exists>k<n. (i + Suc k) mod n = (p::nat)"
proof -
  define r where "r = (i + 1) mod n"
  from assms have rn: "r < n" by (simp add: r_def)
  have "\<exists>k<n. (r + k) mod n = p"
  proof (cases "r \<le> p")
    case True
    with assms have "p - r < n" "(r + (p - r)) mod n = p" by simp_all
    then show ?thesis by blast
  next
    case False
    with assms rn have "p + n - r < n" "r + (p + n - r) = p + n" by simp_all
    with assms have "p + n - r < n" "(r + (p + n - r)) mod n = p" by simp_all
    then show ?thesis by blast
  qed
  then obtain k where k: "k < n" "(r + k) mod n = p" by blast
  have "(i + Suc k) mod n = ((i + 1) mod n + k) mod n"
    by (simp add: mod_add_left_eq)
  with k show ?thesis unfolding r_def by auto
qed

lemma next_peer_within_pass:
  assumes "\<exists>j\<in>set ids. j \<noteq> me"
  shows "\<exists>k<length ids. next_peer ids me i = Some (Inr ((i + Suc k) mod length ids))
          \<and> ids ! ((i + Suc k) mod length ids) \<noteq> me
          \<and> (\<forall>k'<k. ids ! ((i + Suc k') mod length ids) = me)"
proof -
  let ?n = "length ids"
  let ?Q = "\<lambda>k. ids ! ((i + Suc k) mod ?n) \<noteq> me"
  from assms obtain p where p: "p < ?n" "ids ! p \<noteq> me" by (auto simp: in_set_conv_nth)
  then obtain k0 where k0: "k0 < ?n" "(i + Suc k0) mod ?n = p" using reach_index by blast
  with p have q0: "?Q k0" by simp
  define k where "k = (LEAST k. ?Q k)"
  have qk: "?Q k" unfolding k_def using q0 by (rule LeastI)
  have le: "k \<le> k0" unfolding k_def using q0 by (rule Least_le)
  have below: "\<forall>k'<k. ids ! ((i + Suc k') mod ?n) = me"
    unfolding k_def using not_less_Least by blast
  from p have "0 < ?n" by auto
  from next_peer_found [OF this qk below] qk below le k0(1) show ?thesis
    by (intro exI [of _ k]) simp
qed

lemma next_peer_Some_other:
  assumes "next_peer ids me i = Some r"
  shows "ids = [] \<or> (\<exists>j\<in>set ids. j \<noteq> me)"
proof (rule next_peer.raw_induct [where P = "\<lambda>ids me i r. ids = [] \<or> (\<exists>j\<in>set ids. j \<noteq> me)", OF _ assms])
  fix f and ids :: "peer_id list" and me i and r :: "error + nat"
  assume IH: "\<And>ids me i r. f ids me i = Some r \<Longrightarrow> ids = [] \<or> (\<exists>j\<in>set ids. j \<noteq> me)"
    and body: "(if length ids = 0 then Some (Inl ZeroDivisionError)
      else let i' = (i + 1) mod length ids in
           if ids ! i' \<noteq> me then Some (Inr i') else f ids me i') = Some r"
  show "ids = [] \<or> (\<exists>j\<in>set ids. j \<noteq> me)"
  proof (cases "ids = []")
    case True
    then show ?thesis by simp
  next
    case False
    then have lt: "(i + 1) mod length ids < length ids" by simp
    show ?thesis
    proof (cases "ids ! ((i + 1) mod length ids) \<noteq> me")
      case True
      with lt show ?thesis using nth_mem by blast
    next
      case False
      with body \<open>ids \<noteq> []\<close> have "f ids me ((i + 1) mod length ids) = Some r"
        by (simp add: Let_def)
      from IH [OF this] show ?thesis .
    qed
  qed
qed

lemma next_peer_terminates_iff:
  "me \<in> set ids \<Longrightarrow> (\<exists>r. next_peer ids me i = Some r) \<longleftrightarrow> (\<exists>j\<in>set ids. j \<noteq> me)"
  using next_peer_Some_other [of ids me i] next_peer_within_pass [of ids me i] by auto

section \<open>State changes of the handlers\<close>

lemma mem_keys_map_of: "i \<in> set (getIds ord c) \<longleftrightarrow> map_of c i \<noteq> None"
  by (simp add: map_of_eq_None_iff)

lemma keys_map_of: "i \<in> fst ` set c \<longleftrightarrow> map_of c i \<noteq> None"
  by (simp add: map_of_eq_None_iff)

lemma ensure_entry_update: "AList.update i v (ensure_entry ord c i) = AList.update i v c"
  by (simp add: ensure_entry_def)

lemma ensure_entry_dict_get: "dict_get (ensure_entry ord c i) i = Inr (entry_or_default c i)"
  by (cases "map_of c i")
     (simp_all add: ensure_entry_def keys_map_of entry_or_default_def dict_get_def update_conv')

lemma update_fresh: "k \<notin> fst ` set m \<Longrightarrow> AList.update k v m = m @ [(k, v)]"
  by (induction m) auto

lemma setAddr_eq: "setAddr ord c i a = Inr (AList.update i ((entry_or_default c i)\<lparr>addr := a\<rparr>) c)"
  by (simp add: setAddr_def Let_def ensure_entry_dict_get ensure_entry_update)

lemma addHash_eq:
  "addHash ord c i h = Inr (AList.update i ((entry_or_default c i)\<lparr>hash := set_add h (hash (entry_or_default c i))\<rparr>) c)"
  by (simp add: addHash_def Let_def ensure_entry_dict_get ensure_entry_update)

lemma setSize_eq: "setSize ord c i n = Inr (AList.update i ((entry_or_default c i)\<lparr>fsize := n\<rparr>) c)"
  by (simp add: setSize_def Let_def ensure_entry_dict_get ensure_entry_update)

lemma getIds_update:
  "set (getIds ord (AList.update i v c)) = insert i (set (getIds ord c))"
  by (simp add: dom_update)

lemma foldE_invariant:
  assumes "foldE f xs s = Inr s'" and "P s"
    and "\<And>x s s'. x \<in> set xs \<Longrightarrow> P s \<Longrightarrow> f x s = Inr s' \<Longrightarrow> P s'"
  shows "P s'"
  using assms
proof (induction xs arbitrary: s)
  case Nil
  then show ?case by simp
next
  case (Cons x xs)
  from Cons.prems(1) obtain s1 where s1: "f x s = Inr s1" "foldE f xs s1 = Inr s'"
    by (auto simp: bindE_eq_Inr)
  have "P s1" using Cons.prems(3) [OF _ Cons.prems(2) s1(1)] by simp
  show ?case
  proof (rule Cons.IH [OF s1(2) \<open>P s1\<close>])
    fix y t t' assume "y \<in> set xs" "P t" "f y t = Inr t'"
    then show "P t'" using Cons.prems(3) [of y t t'] by simp
  qed
qed

lemma send_peer_eq:
  "send_peer d i m = Inr d' \<Longrightarrow>
     d' = d\<lparr>send_conn := (if i \<in> set (send_conn d) then send_conn d else send_conn d @ [i]),
            sent := sent d @ [(ToPeer i, m)]\<rparr>"
  by (auto simp: send_peer_def getSendConn_def bindE_eq_Inr split: if_splits option.splits)

lemma send_peer_total: "reachable d i \<Longrightarrow> \<exists>d'. send_peer d i m = Inr d'"
  by (auto simp: reachable_def send_peer_def getSendConn_def getAddr_def dict_get_def)


lemma reachable_cong:
  "net_info d' = net_info d \<Longrightarrow> set (send_conn d) \<subseteq> set (send_conn d') \<Longrightarrow> reachable d i \<Longrightarrow> reachable d' i"
  by (auto simp: reachable_def)

lemma send_fold:
  "foldE (\<lambda>i s. if P i then send_peer s i m else Inr s) xs d = Inr d' \<Longrightarrow>
     \<exists>sc. d' = d\<lparr>send_conn := sc, sent := sent d @ map (\<lambda>i. (ToPeer i, m)) (filter P xs)\<rparr>
          \<and> set (send_conn d) \<subseteq> set sc"
proof (induction xs arbitrary: d)
  case Nil
  then show ?case by (intro exI [of _ "send_conn d"]) simp
next
  case (Cons x xs)
  from Cons.prems obtain d1 where d1: "(if P x then send_peer d x m else Inr d) = Inr d1"
    and rest: "foldE (\<lambda>i s. if P i then send_peer s i m else Inr s) xs d1 = Inr d'"
    by (auto simp: bindE_eq_Inr)
  from Cons.IH [OF rest] obtain sc where sc:
    "d' = d1\<lparr>send_conn := sc, sent := sent d1 @ map (\<lambda>i. (ToPeer i, m)) (filter P xs)\<rparr>"
    "set (send_conn d1) \<subseteq> set sc" by blast
  show ?case
  proof (cases "P x")
    case True
    with d1 have "send_peer d x m = Inr d1" by simp
    from send_peer_eq [OF this] sc True show ?thesis
      by (intro exI [of _ sc]) (auto split: if_splits)
  next
    case False
    with d1 sc show ?thesis by (intro exI [of _ sc]) auto
  qed
qed




text \<open>A loop that meets no exception leaves the state its rounds produce.\<close>

lemma for_each_Inr: "foldE f xs s = Inr s' \<Longrightarrow> for_each f xs s = (s', None)"
proof (induction xs arbitrary: s)
  case Nil
  then show ?case by simp
next
  case (Cons x xs)
  from Cons.prems obtain s1 where s1: "f x s = Inr s1" "foldE f xs s1 = Inr s'"
    by (auto simp: bindE_eq_Inr)
  from Cons.IH [OF s1(2)] s1(1) show ?case by (simp add: try_step_def and_then_def)
qed



lemma entry_or_default_update_same [simp]: "entry_or_default (AList.update i v c) i = v"
  by (simp add: entry_or_default_def update_conv')

lemma getSize_update_same [simp]: "getSize (AList.update i v c) i = Inr (fsize v)"
  by (simp add: getSize_def)

lemma getFolderSize_cong: "disk d' = disk d \<Longrightarrow> getFolderSize d' = getFolderSize d"
  by (simp add: getFolderSize_def)



lemma map_of_update_other: "k' \<noteq> k \<Longrightarrow> map_of (AList.update k v m) k' = map_of m k'"
  by (simp add: update_conv')





section \<open>Parsing the folder\<close>

lemma fs_remove_eq:
  "fs_remove d p = Inr d' \<Longrightarrow>
     d' = d\<lparr>disk := filter (\<lambda>(n, f). os_path_join (folder_path d) n \<noteq> p) (disk d)\<rparr>"
  by (auto simp: fs_remove_def split: if_splits)

lemma fs_remove_disk: "fs_remove d p = Inr d' \<Longrightarrow> d' = d\<lparr>disk := disk d'\<rparr>"
  by (drule fs_remove_eq) simp

lemma parse_file_cases:
  assumes "parse_file image_file (d, t, hs) = Inr (d', t', hs')"
  obtains
    (invalid) "\<not> valid_ext image_file"
      "fs_remove d (os_path_join (folder_path d) image_file) = Inr d'" "t' = t" "hs' = hs"
  | (dup) im sim r where "valid_ext image_file"
      "fs_open d (os_path_join (folder_path d) image_file) = Inr im"
      "map_of t (phash im) = Some sim"
      "compareImages d sim (os_path_join (folder_path d) image_file) = Inr r"
      "fs_remove d (snd r) = Inr d'" "t' = AList.update (phash im) (fst r) t" "hs' = hs"
  | (net) im nh where "valid_ext image_file"
      "fs_open d (os_path_join (folder_path d) image_file) = Inr im"
      "map_of t (phash im) = None" "getNetHashes (set_order d) (net_info d) = Inr nh" "phash im \<in> set nh"
      "fs_remove d (os_path_join (folder_path d) image_file) = Inr d'" "t' = t" "hs' = hs"
  | (new) im nh where "valid_ext image_file"
      "fs_open d (os_path_join (folder_path d) image_file) = Inr im"
      "map_of t (phash im) = None" "getNetHashes (set_order d) (net_info d) = Inr nh" "phash im \<notin> set nh"
      "d' = d" "t' = AList.update (phash im) (os_path_join (folder_path d) image_file) t"
      "hs' = set_add (phash im) hs"
proof (cases "valid_ext image_file")
  case False
  with assms have "fs_remove d (os_path_join (folder_path d) image_file) = Inr d'" "t' = t" "hs' = hs"
    by (auto simp: parse_file_def Let_def bindE_eq_Inr)
  with False show ?thesis by (rule invalid)
next
  case True
  with assms obtain im where im: "fs_open d (os_path_join (folder_path d) image_file) = Inr im"
    and rest: "(if phash im \<in> set (map fst t) then
          bindE (dict_get t (phash im)) (\<lambda>similar_image_path.
          bindE (compareImages d similar_image_path (os_path_join (folder_path d) image_file)) (\<lambda>comparison_result.
          bindE (fs_remove d (snd comparison_result)) (\<lambda>d'.
          Inr (d', AList.update (phash im) (fst comparison_result) t, hs))))
        else
          bindE (getNetHashes (set_order d) (net_info d)) (\<lambda>net_hashes.
          if phash im \<in> set net_hashes
          then bindE (fs_remove d (os_path_join (folder_path d) image_file)) (\<lambda>d'. Inr (d', t, hs))
          else Inr (d, AList.update (phash im) (os_path_join (folder_path d) image_file) t, set_add (phash im) hs)))
       = Inr (d', t', hs')"
    by (auto simp: parse_file_def Let_def bindE_eq_Inr)
  show ?thesis
  proof (cases "phash im \<in> set (map fst t)")
    case True
    with rest obtain sim r where "map_of t (phash im) = Some sim"
      "compareImages d sim (os_path_join (folder_path d) image_file) = Inr r"
      "fs_remove d (snd r) = Inr d'" "t' = AList.update (phash im) (fst r) t" "hs' = hs"
      by (auto simp: bindE_eq_Inr dict_get_Inr)
    with \<open>valid_ext image_file\<close> im show ?thesis by (rule dup)
  next
    case False
    then have none: "map_of t (phash im) = None" by (simp add: map_of_eq_None_iff)
    from False rest obtain nh where g: "getNetHashes (set_order d) (net_info d) = Inr nh" and nh: "(if phash im \<in> set nh
          then bindE (fs_remove d (os_path_join (folder_path d) image_file)) (\<lambda>d'. Inr (d', t, hs))
          else Inr (d, AList.update (phash im) (os_path_join (folder_path d) image_file) t, set_add (phash im) hs))
       = Inr (d', t', hs')"
      by (auto simp: bindE_eq_Inr)
    show ?thesis
    proof (cases "phash im \<in> set nh")
      case True
      with nh have "fs_remove d (os_path_join (folder_path d) image_file) = Inr d'" "t' = t" "hs' = hs"
        by (auto simp: bindE_eq_Inr)
      with \<open>valid_ext image_file\<close> im none g True show ?thesis by (rule net)
    next
      case False
      with nh have "d' = d" "t' = AList.update (phash im) (os_path_join (folder_path d) image_file) t"
        "hs' = set_add (phash im) hs" by auto
      with \<open>valid_ext image_file\<close> im none g False show ?thesis by (rule new)
    qed
  qed
qed

lemma parse_file_frame:
  assumes "parse_file image_file (d, t, hs) = Inr (d', t', hs')"
  shows "d' = d\<lparr>disk := disk d'\<rparr> \<and> (fst ` set t = set hs \<longrightarrow> fst ` set t' = set hs')"
  using assms
proof (cases rule: parse_file_cases)
  case invalid
  then show ?thesis using fs_remove_disk by blast
next
  case (dup im sim r)
  from dup(3) have "phash im \<in> fst ` set t" by (metis map_of_eq_None_iff option.distinct(1))
  with dup show ?thesis using fs_remove_disk [of d "snd r" d'] by (auto simp: dom_update)
next
  case (net im nh)
  then show ?thesis using fs_remove_disk by blast
next
  case (new im nh)
  then show ?thesis by (auto simp: dom_update set_add_def)
qed

lemma parse_loop_frame:
  "foldE parse_file fs (d, t, hs) = Inr (d', t', hs') \<Longrightarrow> fst ` set t = set hs
   \<Longrightarrow> d' = d\<lparr>disk := disk d'\<rparr> \<and> fst ` set t' = set hs'"
proof (induction fs arbitrary: d t hs)
  case Nil
  then show ?case by simp
next
  case (Cons x xs)
  from Cons.prems(1) obtain d1 t1 hs1 where s1: "parse_file x (d, t, hs) = Inr (d1, t1, hs1)"
    and r: "foldE parse_file xs (d1, t1, hs1) = Inr (d', t', hs')"
    by (auto simp: bindE_eq_Inr)
  from parse_file_frame [OF s1] Cons.prems(2) have a: "d1 = d\<lparr>disk := disk d1\<rparr>" "fst ` set t1 = set hs1"
    by auto
  from Cons.IH [OF r a(2)] have b: "d' = d1\<lparr>disk := disk d'\<rparr>" "fst ` set t' = set hs'" by auto
  have "d' = d\<lparr>disk := disk d'\<rparr>" by (subst b(1), subst a(1)) simp
  with b(2) show ?case by simp
qed


lemma addHash_fold:
  "self_id s = Some me \<Longrightarrow>
   \<exists>c3. foldE (\<lambda>h s. bindE (get_id s) (\<lambda>me. on_net_info (\<lambda>c. addHash (set_order s) c me h) s)) hs s
          = Inr (s\<lparr>net_info := c3\<rparr>)
      \<and> set (hash (entry_or_default c3 me)) = set (hash (entry_or_default (net_info s) me)) \<union> set hs
      \<and> addr (entry_or_default c3 me) = addr (entry_or_default (net_info s) me)
      \<and> (\<forall>i. i \<noteq> me \<longrightarrow> map_of c3 i = map_of (net_info s) i)
      \<and> fst ` set (net_info s) \<subseteq> fst ` set c3 \<and> fst ` set c3 \<subseteq> insert me (fst ` set (net_info s))"
proof (induction hs arbitrary: s)
  case Nil
  show ?case by (intro exI [of _ "net_info s"]) auto
next
  case (Cons h hs)
  let ?e = "entry_or_default (net_info s) me"
  let ?c1 = "AList.update me (?e\<lparr>hash := set_add h (hash ?e)\<rparr>) (net_info s)"
  let ?s1 = "s\<lparr>net_info := ?c1\<rparr>"
  have step: "bindE (get_id s) (\<lambda>me. on_net_info (\<lambda>c. addHash (set_order s) c me h) s) = Inr ?s1"
    using Cons.prems by (simp add: get_id_def on_net_info_def addHash_eq)
  have "self_id ?s1 = Some me" using Cons.prems by simp
  from Cons.IH [OF this] obtain c3 where c3:
    "foldE (\<lambda>h s. bindE (get_id s) (\<lambda>me. on_net_info (\<lambda>c. addHash (set_order s) c me h) s)) hs ?s1 = Inr (?s1\<lparr>net_info := c3\<rparr>)"
    "set (hash (entry_or_default c3 me)) = set (hash (entry_or_default (net_info ?s1) me)) \<union> set hs"
    "addr (entry_or_default c3 me) = addr (entry_or_default (net_info ?s1) me)"
    "\<forall>i. i \<noteq> me \<longrightarrow> map_of c3 i = map_of (net_info ?s1) i"
    "fst ` set (net_info ?s1) \<subseteq> fst ` set c3" "fst ` set c3 \<subseteq> insert me (fst ` set (net_info ?s1))"
    by blast
  have a: "set (hash (entry_or_default c3 me)) = set (hash ?e) \<union> set (h # hs)"
    using c3(2) by (auto simp: set_add_def)
  have b: "addr (entry_or_default c3 me) = addr ?e" using c3(3) by simp
  have c: "\<forall>i. i \<noteq> me \<longrightarrow> map_of c3 i = map_of (net_info s) i"
    using c3(4) by (simp add: map_of_update_other)
  have d: "fst ` set (net_info s) \<subseteq> fst ` set c3" "fst ` set c3 \<subseteq> insert me (fst ` set (net_info s))"
    using c3(5,6) by (auto simp: dom_update split: if_splits)
  have "foldE (\<lambda>h s. bindE (get_id s) (\<lambda>me. on_net_info (\<lambda>c. addHash (set_order s) c me h) s)) (h # hs) s = Inr (s\<lparr>net_info := c3\<rparr>)"
    using step c3(1) by simp
  with a b c d show ?case by blast
qed

lemma parseFolder_loop:
  "parseFolder d = Inr d' \<Longrightarrow> \<exists>d1 t hs. foldE parse_file (map fst (disk d)) (d, [], []) = Inr (d1, t, hs)"
  by (auto simp: parseFolder_def bindE_eq_Inr)

lemma parseFolder_eq:
  assumes l: "foldE parse_file (map fst (disk d)) (d, [], []) = Inr (d1, t, hs)"
    and me: "self_id d = Some me"
  shows "\<exists>c3. parseFolder d = Inr (d\<lparr>disk := disk d1,
            images := fold (\<lambda>(h, image_path) m. AList.update h image_path m) t (images d),
            net_info := AList.update me ((entry_or_default c3 me)\<lparr>fsize := getFolderSize d1\<rparr>) c3\<rparr>)
      \<and> fst ` set t = set hs
      \<and> set (hash (entry_or_default c3 me)) = set (hash (entry_or_default (net_info d) me)) \<union> set hs
      \<and> addr (entry_or_default c3 me) = addr (entry_or_default (net_info d) me)
      \<and> (\<forall>i. i \<noteq> me \<longrightarrow> map_of c3 i = map_of (net_info d) i)
      \<and> fst ` set (net_info d) \<subseteq> fst ` set c3 \<and> fst ` set c3 \<subseteq> insert me (fst ` set (net_info d))"
proof -
  from parse_loop_frame [OF l] have d1: "d1 = d\<lparr>disk := disk d1\<rparr>" and keys: "fst ` set t = set hs"
    by simp_all
  define d2 where "d2 = d\<lparr>disk := disk d1, images := fold (\<lambda>(h, image_path) m. AList.update h image_path m) t (images d)\<rparr>"
  have d2': "d1\<lparr>images := fold (\<lambda>(h, image_path) m. AList.update h image_path m) t (images d1)\<rparr> = d2"
    by (subst d1, subst (2) d1) (simp add: d2_def)
  have "self_id d2 = Some me" using me by (simp add: d2_def)
  from addHash_fold [OF this, of hs] obtain c3 where c3:
    "foldE (\<lambda>h s. bindE (get_id s) (\<lambda>me. on_net_info (\<lambda>c. addHash (set_order s) c me h) s)) hs d2 = Inr (d2\<lparr>net_info := c3\<rparr>)"
    "set (hash (entry_or_default c3 me)) = set (hash (entry_or_default (net_info d2) me)) \<union> set hs"
    "addr (entry_or_default c3 me) = addr (entry_or_default (net_info d2) me)"
    "\<forall>i. i \<noteq> me \<longrightarrow> map_of c3 i = map_of (net_info d2) i"
    "fst ` set (net_info d2) \<subseteq> fst ` set c3" "fst ` set c3 \<subseteq> insert me (fst ` set (net_info d2))"
    by blast
  have gfs: "getFolderSize (d2\<lparr>net_info := c3\<rparr>) = getFolderSize d1"
    by (simp add: getFolderSize_def d2_def)
  have "parseFolder d = Inr (d2\<lparr>net_info := AList.update me ((entry_or_default c3 me)\<lparr>fsize := getFolderSize d1\<rparr>) c3\<rparr>)"
    unfolding parseFolder_def using l d2' c3(1) me gfs
    by (simp add: Let_def get_id_def on_net_info_def setSize_eq d2_def)
  then show ?thesis using keys c3(2-) by (intro exI [of _ c3]) (simp add: d2_def)
qed

lemma parseFolder_no_id: "self_id d = None \<Longrightarrow> parseFolder d = Inr d' \<Longrightarrow> False"
proof -
  assume n: "self_id d = None" and a: "parseFolder d = Inr d'"
  then obtain d1 t hs where l: "foldE parse_file (map fst (disk d)) (d, [], []) = Inr (d1, t, hs)"
    by (auto simp: parseFolder_def bindE_eq_Inr)
  from parse_loop_frame [OF l] have d1: "d1 = d\<lparr>disk := disk d1\<rparr>" by simp
  have n1: "self_id d1 = None" by (subst d1) (simp add: n)
  define d2 where "d2 = d1\<lparr>images := fold (\<lambda>(h, image_path) m. AList.update h image_path m) t (images d1)\<rparr>"
  have n2: "self_id d2 = None" using n1 by (simp add: d2_def)
  from a l obtain d3 me where f: "foldE (\<lambda>h s. bindE (get_id s) (\<lambda>me. on_net_info (\<lambda>c. addHash (set_order s) c me h) s)) hs d2 = Inr d3"
    and g: "get_id d3 = Inr me"
    unfolding parseFolder_def d2_def by (auto simp: bindE_eq_Inr Let_def)
  from f n2 have "d3 = d2" by (cases hs) (auto simp: get_id_def)
  with g n2 show False by (simp add: get_id_def)
qed


section \<open>Identifiers\<close>

lemma send_peer_frame:
  "send_peer d i m = Inr d' \<Longrightarrow> net_info d' = net_info d \<and> sent d' = sent d @ [(ToPeer i, m)]
     \<and> self_id d' = self_id d \<and> images d' = images d \<and> disk d' = disk d
     \<and> own_request d' = own_request d \<and> recv_conn d' = recv_conn d \<and> folder_path d' = folder_path d
     \<and> set_order d' = set_order d \<and> image_save d' = image_save d"
  by (drule send_peer_eq) simp

lemma join_image_fold:
  assumes "foldE (\<lambda>h s. bindE (getImage s h) (\<lambda>im. bindE (getFname s h) (\<lambda>fn.
                      send_peer s i (ImageMessage me h im fn True)))) hs d = Inr d'"
  shows "net_info d' = net_info d \<and> recv_conn d' = recv_conn d \<and> (\<exists>rest. sent d' = sent d @ rest)"
proof (rule foldE_invariant [OF assms, where P = "\<lambda>s. net_info s = net_info d \<and> recv_conn s = recv_conn d \<and> (\<exists>rest. sent s = sent d @ rest)"])
  show "net_info d = net_info d \<and> recv_conn d = recv_conn d \<and> (\<exists>rest. sent d = sent d @ rest)" by simp
next
  fix h s s'
  assume P: "net_info s = net_info d \<and> recv_conn s = recv_conn d \<and> (\<exists>rest. sent s = sent d @ rest)"
    and step: "bindE (getImage s h) (\<lambda>im. bindE (getFname s h) (\<lambda>fn.
                      send_peer s i (ImageMessage me h im fn True))) = Inr s'"
  from step obtain im fn where "send_peer s i (ImageMessage me h im fn True) = Inr s'"
    by (auto simp: bindE_eq_Inr)
  from send_peer_frame [OF this] P
  show "net_info s' = net_info d \<and> recv_conn s' = recv_conn d \<and> (\<exists>rest. sent s' = sent d @ rest)" by auto
qed


lemma join_new_id:
  assumes ok: "action_join d conn a = Inr d'"
  shows "getIds (set_order d) (net_info d) \<noteq> [] \<and>
    (let new_id = Max (set (getIds (set_order d) (net_info d))) + 1
     in (\<forall>i\<in>set (getIds (set_order d) (net_info d)). i < new_id)
      \<and> new_id \<notin> set (getIds (set_order d) (net_info d))
      \<and> net_info d' = net_info d @ [(new_id, \<lparr>addr = a, hash = [], fsize = 0\<rparr>)]
      \<and> map_of (recv_conn d') new_id = Some conn
      \<and> (\<exists>me rest. self_id d = Some me
            \<and> sent d' = sent d @ (ToPeer new_id, ConfigMessage me new_id (net_info d')) # rest))"
proof -
  define new_id where "new_id = Max (set (getIds (set_order d) (net_info d))) + 1"
  from ok have ne: "getIds (set_order d) (net_info d) \<noteq> []" by (auto simp: action_join_def split: if_splits)
  have lt: "\<forall>i\<in>set (getIds (set_order d) (net_info d)). i < new_id"
  proof
    fix i assume "i \<in> set (getIds (set_order d) (net_info d))"
    then have "i \<le> Max (set (getIds (set_order d) (net_info d)))" by (simp add: Max_ge)
    then show "i < new_id" unfolding new_id_def by linarith
  qed
  then have fresh: "new_id \<notin> set (getIds (set_order d) (net_info d))" by auto
  define c where "c = net_info d @ [(new_id, \<lparr>addr = a, hash = [], fsize = 0\<rparr>)]"
  have "map_of (net_info d) new_id = None" using fresh by (simp add: keys_map_of)
  then have sa: "setAddr (set_order d) (net_info d) new_id a = Inr c"
    using fresh by (simp add: setAddr_eq c_def update_fresh entry_or_default_def default_entry_def)
  define d1 where "d1 = d\<lparr>net_info := c, recv_conn := AList.update new_id conn (recv_conn d)\<rparr>"
  from ok ne sa obtain me d2 new_addr d3 where
    me: "self_id d = Some me"
    and d2: "send_peer d1 new_id (ConfigMessage me new_id (net_info d1)) = Inr d2"
    and d3: "foldE (\<lambda>i s. if i \<noteq> new_id \<and> i \<noteq> me then send_peer s i
         (UpdateMessage me [(new_id, \<lparr>d_addr = Some new_addr, d_hash = None, d_size = None\<rparr>)] [])
          else Inr s) (getIds (set_order d2) (net_info d2)) d2 = Inr d3"
    and fin: "(if length (getIds (set_order d3) (net_info d3)) = 2
        then bindE (getHashes (net_info d3) me) (\<lambda>hs.
             foldE (\<lambda>h s. bindE (getImage s h) (\<lambda>im. bindE (getFname s h) (\<lambda>fn.
                      send_peer s new_id (ImageMessage me h im fn True)))) hs d3)
        else Inr d3) = Inr d'"
    unfolding action_join_def Let_def new_id_def [symmetric]
    by (auto simp: bindE_eq_Inr on_net_info_def get_id_def d1_def split: option.splits if_splits)
  from send_peer_frame [OF d2] have f2: "net_info d2 = c" "recv_conn d2 = recv_conn d1"
      "sent d2 = sent d @ [(ToPeer new_id, ConfigMessage me new_id c)]"
    by (simp_all add: d1_def)
  from send_fold [OF d3] obtain sc r3 where f3: "net_info d3 = c" "recv_conn d3 = recv_conn d1"
      "sent d3 = sent d2 @ r3"
    using f2 by auto
  have f4: "net_info d' = c \<and> recv_conn d' = recv_conn d1 \<and> (\<exists>rest. sent d' = sent d3 @ rest)"
  proof (cases "length (getIds (set_order d3) (net_info d3)) = 2")
    case True
    with fin obtain hs where "foldE (\<lambda>h s. bindE (getImage s h) (\<lambda>im. bindE (getFname s h) (\<lambda>fn.
                      send_peer s new_id (ImageMessage me h im fn True)))) hs d3 = Inr d'"
      by (auto simp: bindE_eq_Inr)
    from join_image_fold [OF this] f3 show ?thesis by simp
  next
    case False
    with fin f3 show ?thesis by simp
  qed
  then obtain rest where rest: "sent d' = sent d3 @ rest" by blast
  have "map_of (recv_conn d') new_id = Some conn" using f4 by (simp add: d1_def update_conv')
  moreover have "sent d' = sent d @ (ToPeer new_id, ConfigMessage me new_id (net_info d')) # (r3 @ rest)"
    using rest f3 f2 f4 by simp
  ultimately show ?thesis
    using ne lt fresh f4 me unfolding Let_def new_id_def [symmetric] c_def [symmetric] by blast
qed


lemma bootstrap_id:
  assumes "Daemon_init ord save folder a None files = Inr d0"
  shows "self_id d0 = Some 1"
proof -
  define d where "d = \<lparr>self_addr = a, folder_path = folder, images = [], net_info = [], send_conn = [],
               recv_conn = [], own_request = [], client_request = [], self_id = None,
               join_sock = False, disk = files, sent = [], set_order = ord, image_save = save\<rparr>"
  from assms obtain d1 where d1: "on_net_info (\<lambda>c. setAddr ord c 1 a) (d\<lparr>self_id := Some 1\<rparr>) = Inr d1"
    and p: "parseFolder d1 = Inr d0"
    by (auto simp: Daemon_init_def d_def bindE_eq_Inr)
  from d1 have me: "self_id d1 = Some 1" by (auto simp: on_net_info_def bindE_eq_Inr)
  from parseFolder_loop [OF p] obtain d2 t hs where
    "foldE parse_file (map fst (disk d1)) (d1, [], []) = Inr (d2, t, hs)" by blast
  from parseFolder_eq [OF this me] p me show ?thesis by auto
qed

text \<open>
  C4. The first peer of a network gives itself the id 1. A peer that handles a \<^verbatim>\<open>join\<close>
  to the end has a non-empty catalog and issues the greatest id of its catalog plus one:
  that id is above every id of the catalog and is none of them, the catalog gets a fresh
  entry with the address of the joiner under it, the accepted connection is indexed under
  it, and the \<^verbatim>\<open>config\<close> message, the first message the handler sends, carries it.
  With an empty catalog \<^verbatim>\<open>max\<close> raises.
\<close>

theorem join_issues_next_id:
  "(Daemon_init ord save folder a0 None files = Inr d0 \<longrightarrow> self_id d0 = Some 1)
   \<and> (getIds (set_order d) (net_info d) = [] \<longrightarrow> action_join d conn a = Inl ValueError)
   \<and> (action_join d conn a = Inr d' \<longrightarrow>
        getIds (set_order d) (net_info d) \<noteq> [] \<and>
        (let new_id = Max (set (getIds (set_order d) (net_info d))) + 1
         in (\<forall>i\<in>set (getIds (set_order d) (net_info d)). i < new_id)
          \<and> new_id \<notin> set (getIds (set_order d) (net_info d))
          \<and> net_info d' = net_info d @ [(new_id, \<lparr>addr = a, hash = [], fsize = 0\<rparr>)]
          \<and> map_of (recv_conn d') new_id = Some conn
          \<and> (\<exists>me rest. self_id d = Some me
                \<and> sent d' = sent d @ (ToPeer new_id, ConfigMessage me new_id (net_info d')) # rest)))"
proof (intro conjI impI)
  assume "Daemon_init ord save folder a0 None files = Inr d0"
  then show "self_id d0 = Some 1" by (rule bootstrap_id)
next
  assume "getIds (set_order d) (net_info d) = []"
  then show "action_join d conn a = Inl ValueError" by (simp add: action_join_def)
next
  assume ok: "action_join d conn a = Inr d'"
  from join_new_id [OF ok] show "getIds (set_order d) (net_info d) \<noteq> []" by (rule conjunct1)
  from join_new_id [OF ok]
  show "let new_id = Max (set (getIds (set_order d) (net_info d))) + 1
         in (\<forall>i\<in>set (getIds (set_order d) (net_info d)). i < new_id)
          \<and> new_id \<notin> set (getIds (set_order d) (net_info d))
          \<and> net_info d' = net_info d @ [(new_id, \<lparr>addr = a, hash = [], fsize = 0\<rparr>)]
          \<and> map_of (recv_conn d') new_id = Some conn
          \<and> (\<exists>me rest. self_id d = Some me
                \<and> sent d' = sent d @ (ToPeer new_id, ConfigMessage me new_id (net_info d')) # rest)"
    by (rule conjunct2)
qed

theorem join_issues_next_id_witness:
  "(\<exists>d0. Daemon_init slot_order pil_save ''p1'' (Some (''localhost'', 5000)) None
            [(''a.png'', \<lparr>phash = ''ff00'', width = 4, height = 2, colours = 3, nbytes = 7\<rparr>)] = Inr d0
         \<and> self_id d0 = Some 1)
   \<and> (\<exists>d'. action_join peer1 4 (Some (''localhost'', 5001)) = Inr d'
         \<and> net_info d' = net_info peer1 @ [(2, \<lparr>addr = Some (''localhost'', 5001), hash = [], fsize = 0\<rparr>)]
         \<and> map_of (recv_conn d') 2 = Some 4)"
proof -
  have "\<exists>d0. Daemon_init slot_order pil_save ''p1'' (Some (''localhost'', 5000)) None
      [(''a.png'', \<lparr>phash = ''ff00'', width = 4, height = 2, colours = 3, nbytes = 7\<rparr>)] = Inr d0"
    by (simp add: Daemon_init_def on_net_info_def setAddr_eq entry_or_default_def default_entry_def
        parseFolder_def parse_file_def valid_ext_def suffix_to_prefix fs_open_def os_path_join_def
        getNetHashes_def getIds_def slot_order_def getHashes_def dict_get_def Let_def set_add_def get_id_def
        addHash_eq setSize_eq)
  then obtain d0 where d0: "Daemon_init slot_order pil_save ''p1'' (Some (''localhost'', 5000)) None
      [(''a.png'', \<lparr>phash = ''ff00'', width = 4, height = 2, colours = 3, nbytes = 7\<rparr>)] = Inr d0"
    by blast
  have "\<exists>d'. action_join peer1 4 (Some (''localhost'', 5001)) = Inr d'"
    by (simp add: action_join_def peer1_def getIds_def slot_order_def on_net_info_def setAddr_eq entry_or_default_def
        default_entry_def get_id_def send_peer_def getSendConn_def getAddr_def dict_get_def Let_def
        getHashes_def getImage_def getFname_def fs_open_def os_path_join_def suffix_to_prefix)
  then obtain d' where d': "action_join peer1 4 (Some (''localhost'', 5001)) = Inr d'" by blast
  have m: "Max (set (getIds (set_order peer1) (net_info peer1))) + 1 = 2" by (simp add: peer1_def)
  from join_issues_next_id [of slot_order pil_save "''p1''" "Some (''localhost'', 5000)"
      "[(''a.png'', \<lparr>phash = ''ff00'', width = 4, height = 2, colours = 3, nbytes = 7\<rparr>)]" d0
      peer1 4 "Some (''localhost'', 5001)" d'] d0 d'
  have "self_id d0 = Some 1"
    "net_info d' = net_info peer1 @ [(2, \<lparr>addr = Some (''localhost'', 5001), hash = [], fsize = 0\<rparr>)]"
    "map_of (recv_conn d') 2 = Some 4"
    unfolding Let_def m by simp_all
  with d0 d' show ?thesis by blast
qed

section \<open>The election after a crash\<close>

lemma mapE_eq:
  "(\<And>x. x \<in> set xs \<Longrightarrow> f x = Inr (g x)) \<Longrightarrow> mapE f xs = Inr (map g xs)"
  by (induction xs) simp_all

lemma getSize_mem:
  "j \<in> set (getIds ord c) \<Longrightarrow> getSize c j = Inr (fsize (entry_or_default c j))"
  by (cases "map_of c j") (auto simp: getSize_def dict_get_def entry_or_default_def keys_map_of)

lemma getHashes_mem:
  "j \<in> set (getIds ord c) \<Longrightarrow> getHashes c j = Inr (hash (entry_or_default c j))"
  by (cases "map_of c j") (auto simp: getHashes_def dict_get_def entry_or_default_def keys_map_of)

lemma ids_sorted_eq:
  "ids_sorted ord c = Inr (map snd (sort (map (\<lambda>j. (fsize (entry_or_default c j), j)) (getIds ord c))))"
proof -
  have "mapE (getSize c) (getIds ord c) = Inr (map (\<lambda>j. fsize (entry_or_default c j)) (getIds ord c))"
    by (rule mapE_eq) (rule getSize_mem [of _ ord])
  moreover have "zip (map g xs) xs = map (\<lambda>j. (g j, j)) xs" for g :: "peer_id \<Rightarrow> int" and xs
    by (induction xs) simp_all
  ultimately show ?thesis by (simp add: ids_sorted_def Let_def)
qed

lemma sorted_pairs_back:
  fixes g :: "peer_id \<Rightarrow> int"
  shows "map (\<lambda>j. (g j, j)) (map snd (sort (map (\<lambda>j. (g j, j)) xs))) = sort (map (\<lambda>j. (g j, j)) xs)"
proof -
  have "\<forall>p\<in>set (sort (map (\<lambda>j. (g j, j)) xs)). (g (snd p), snd p) = p" by auto
  then have "map ((\<lambda>j. (g j, j)) \<circ> snd) (sort (map (\<lambda>j. (g j, j)) xs)) = sort (map (\<lambda>j. (g j, j)) xs)"
    by (intro map_idI) auto
  then show ?thesis by simp
qed

lemma ids_sorted_props:
  assumes "ids_sorted ord c = Inr xs"
  shows "mset xs = mset (getIds ord c)" and "sorted (map (\<lambda>j. (fsize (entry_or_default c j), j)) xs)"
proof -
  from assms have xs: "xs = map snd (sort (map (\<lambda>j. (fsize (entry_or_default c j), j)) (getIds ord c)))"
    by (simp add: ids_sorted_eq)
  have "mset (map snd (sort (map (\<lambda>j. (fsize (entry_or_default c j), j)) (getIds ord c))))
      = image_mset snd (mset (map (\<lambda>j. (fsize (entry_or_default c j), j)) (getIds ord c)))"
    by simp
  also have "\<dots> = mset (getIds ord c)" by (simp add: image_mset.compositionality comp_def)
  finally show "mset xs = mset (getIds ord c)" by (simp add: xs)
  show "sorted (map (\<lambda>j. (fsize (entry_or_default c j), j)) xs)"
    unfolding xs sorted_pairs_back by simp
qed

lemma ids_sorted_same_view:
  assumes "distinct (map fst c)" "distinct (map fst c2)" "set c2 = set c"
  shows "ids_sorted ord2 c2 = ids_sorted ord c"
proof -
  from assms have m: "map_of c2 = map_of c"
    by (intro map_of_inject_set [THEN iffD2]) simp_all
  then have e: "entry_or_default c2 = entry_or_default c" by (simp add: entry_or_default_def fun_eq_iff)
  from assms have "distinct c" "distinct c2" by (auto simp: distinct_map)
  with assms(3) have "mset c2 = mset c" by (simp add: set_eq_iff_mset_eq_distinct)
  then have "image_mset fst (mset c2) = image_mset fst (mset c)" by simp
  then have "mset (map fst c2) = mset (map fst c)" by simp
  with assms(1,2) have "mset (getIds ord2 c2) = mset (getIds ord c)"
    by (simp add: mset_getIds distinct_remdups_id)
  then have "mset (map (\<lambda>j. (fsize (entry_or_default c j), j)) (getIds ord2 c2))
      = mset (map (\<lambda>j. (fsize (entry_or_default c j), j)) (getIds ord c))"
    by simp
  then have "sort (map (\<lambda>j. (fsize (entry_or_default c j), j)) (getIds ord2 c2))
      = sort (map (\<lambda>j. (fsize (entry_or_default c j), j)) (getIds ord c))"
    by (intro properties_for_sort) simp_all
  then show ?thesis by (simp add: ids_sorted_eq e)
qed


lemma crashHandler_unfold:
  assumes i: "i \<in> set (getIds (set_order d) (net_info d))"
    and c: "c = AList.delete i (net_info d)"
    and xs: "ids_sorted (set_order d) c = Inr xs"
  shows "crashHandler d i =
    (if length xs = 1 then Inr (d\<lparr>net_info := c\<rparr>)
     else (case take 2 xs of
          [id_designated, id_backup] \<Rightarrow>
            bindE (get_id (d\<lparr>net_info := c\<rparr>)) (\<lambda>me.
            if me \<noteq> id_designated then Inr (d\<lparr>net_info := c\<rparr>)
            else foldE (recover_hash me id_backup) (hash (entry_or_default (net_info d) i)) (d\<lparr>net_info := c\<rparr>))
        | _ \<Rightarrow> Inl ValueError))"
  unfolding crashHandler_def c using getHashes_mem [OF i] xs [unfolded c]
  by (simp add: Let_def)

lemma take2: "1 < length xs \<Longrightarrow> take 2 xs = [hd xs, hd (tl xs)]"
  by (cases xs; cases "tl xs") auto

lemma take2_short: "length xs \<noteq> 1 \<Longrightarrow> \<not> 1 < length xs \<Longrightarrow> take 2 xs = []"
  by (cases xs) auto

text \<open>
  C1. When a peer handles the crash of a peer of its catalog, the surviving ids are ordered
  by folder size, then by id: the list the handler computes holds exactly the surviving ids
  and is sorted by the pairs (size, id). With one survivor the handler returns at once, and
  so it does at a peer that is not the first of the list: in both cases the crashed entry
  is gone from the catalog and nothing else has changed, no message is sent. A run that
  changes anything more is a run of the first peer of the list. The list depends on the
  entries of the catalog alone, not on the peer that computes it, on the order it keeps
  them in or on the order in which it iterates the set of ids.
\<close>

theorem crash_election:
  assumes i: "i \<in> set (getIds (set_order d) (net_info d))"
  shows "\<exists>xs. ids_sorted (set_order d) (AList.delete i (net_info d)) = Inr xs
    \<and> mset xs = mset (getIds (set_order d) (AList.delete i (net_info d)))
    \<and> sorted (map (\<lambda>j. (fsize (entry_or_default (AList.delete i (net_info d)) j), j)) xs)
    \<and> (length xs = 1 \<longrightarrow> crashHandler d i = Inr (d\<lparr>net_info := AList.delete i (net_info d)\<rparr>))
    \<and> (\<forall>me. 1 < length xs \<and> self_id d = Some me \<and> me \<noteq> hd xs \<longrightarrow>
           crashHandler d i = Inr (d\<lparr>net_info := AList.delete i (net_info d)\<rparr>))
    \<and> (\<forall>d'. crashHandler d i = Inr d' \<and> d' \<noteq> d\<lparr>net_info := AList.delete i (net_info d)\<rparr> \<longrightarrow>
           1 < length xs \<and> self_id d = Some (hd xs))
    \<and> (\<forall>ord2 c2. distinct (map fst (AList.delete i (net_info d))) \<and> distinct (map fst c2)
           \<and> set c2 = set (AList.delete i (net_info d)) \<longrightarrow> ids_sorted ord2 c2 = Inr xs)"
proof -
  define c where "c = AList.delete i (net_info d)"
  define xs where "xs = map snd (sort (map (\<lambda>j. (fsize (entry_or_default c j), j)) (getIds (set_order d) c)))"
  have s: "ids_sorted (set_order d) c = Inr xs" by (simp add: ids_sorted_eq xs_def)
  note u = crashHandler_unfold [OF i c_def s]
  have a: "length xs = 1 \<longrightarrow> crashHandler d i = Inr (d\<lparr>net_info := c\<rparr>)"
    by (simp add: u)
  have two: "1 < length xs \<Longrightarrow> crashHandler d i =
       bindE (get_id (d\<lparr>net_info := c\<rparr>)) (\<lambda>me.
            if me \<noteq> hd xs then Inr (d\<lparr>net_info := c\<rparr>)
            else foldE (recover_hash me (hd (tl xs))) (hash (entry_or_default (net_info d) i)) (d\<lparr>net_info := c\<rparr>))"
    by (simp add: u take2)
  have b: "\<forall>me. 1 < length xs \<and> self_id d = Some me \<and> me \<noteq> hd xs \<longrightarrow>
           crashHandler d i = Inr (d\<lparr>net_info := c\<rparr>)"
    by (simp add: two get_id_def)
  have e: "\<forall>d'. crashHandler d i = Inr d' \<and> d' \<noteq> d\<lparr>net_info := c\<rparr> \<longrightarrow>
           1 < length xs \<and> self_id d = Some (hd xs)"
  proof (intro allI impI, elim conjE)
    fix d' assume r: "crashHandler d i = Inr d'" and n: "d' \<noteq> d\<lparr>net_info := c\<rparr>"
    from r n have l1: "length xs \<noteq> 1" by (auto simp: u)
    have l2: "1 < length xs"
    proof (rule ccontr)
      assume "\<not> 1 < length xs"
      with l1 have "xs = []" by (cases xs) auto
      with r show False by (simp add: u)
    qed
    from r obtain me where me: "get_id (d\<lparr>net_info := c\<rparr>) = Inr me"
      and k: "(if me \<noteq> hd xs then Inr (d\<lparr>net_info := c\<rparr>)
            else foldE (recover_hash me (hd (tl xs))) (hash (entry_or_default (net_info d) i)) (d\<lparr>net_info := c\<rparr>)) = Inr d'"
      using two [OF l2] by (cases "get_id (d\<lparr>net_info := c\<rparr>)") simp_all
    from k n have "me = hd xs" by (cases "me = hd xs") auto
    with me have "self_id d = Some (hd xs)" by (simp add: get_id_def split: option.splits)
    with l2 show "1 < length xs \<and> self_id d = Some (hd xs)" by simp
  qed
  have f: "\<forall>ord2 c2. distinct (map fst c) \<and> distinct (map fst c2) \<and> set c2 = set c \<longrightarrow> ids_sorted ord2 c2 = Inr xs"
  proof (intro allI impI, elim conjE)
    fix ord2 c2 assume "distinct (map fst c)" "distinct (map fst c2)" "set c2 = set c"
    from ids_sorted_same_view [OF this, of ord2 "set_order d"] s show "ids_sorted ord2 c2 = Inr xs" by simp
  qed
  have "ids_sorted (set_order d) c = Inr xs
    \<and> mset xs = mset (getIds (set_order d) c)
    \<and> sorted (map (\<lambda>j. (fsize (entry_or_default c j), j)) xs)
    \<and> (length xs = 1 \<longrightarrow> crashHandler d i = Inr (d\<lparr>net_info := c\<rparr>))
    \<and> (\<forall>me. 1 < length xs \<and> self_id d = Some me \<and> me \<noteq> hd xs \<longrightarrow>
           crashHandler d i = Inr (d\<lparr>net_info := c\<rparr>))
    \<and> (\<forall>d'. crashHandler d i = Inr d' \<and> d' \<noteq> d\<lparr>net_info := c\<rparr> \<longrightarrow>
           1 < length xs \<and> self_id d = Some (hd xs))
    \<and> (\<forall>ord2 c2. distinct (map fst c) \<and> distinct (map fst c2)
           \<and> set c2 = set c \<longrightarrow> ids_sorted ord2 c2 = Inr xs)"
    using s ids_sorted_props [OF s] a b e f by (intro conjI)
  then show ?thesis unfolding c_def by (rule exI)
qed


theorem crash_election_witness:
  "3 \<in> set (getIds (set_order bystander) (net_info bystander))
   \<and> ids_sorted (set_order bystander) (AList.delete 3 (net_info bystander)) = Inr [1, 2]
   \<and> self_id bystander = Some 2
   \<and> crashHandler bystander 3 = Inr (bystander\<lparr>net_info := AList.delete 3 (net_info bystander)\<rparr>)"
proof -
  have i: "3 \<in> set (getIds (set_order bystander) (net_info bystander))" by (simp add: bystander_def)
  have s: "ids_sorted (set_order bystander) (AList.delete 3 (net_info bystander)) = Inr [1, 2]"
    by (simp add: ids_sorted_def bystander_def getIds_def slot_order_def getSize_def dict_get_def Let_def)
  have me: "self_id bystander = Some 2" by (simp add: bystander_def)
  from crash_election [OF i] obtain xs where xs: "ids_sorted (set_order bystander) (AList.delete 3 (net_info bystander)) = Inr xs"
    and other: "\<forall>me. 1 < length xs \<and> self_id bystander = Some me \<and> me \<noteq> hd xs \<longrightarrow>
           crashHandler bystander 3 = Inr (bystander\<lparr>net_info := AList.delete 3 (net_info bystander)\<rparr>)"
    by (elim exE conjE) (rule that, assumption+)
  from xs s have "xs = [1, 2]" by simp
  with other me
  have "crashHandler bystander 3 = Inr (bystander\<lparr>net_info := AList.delete 3 (net_info bystander)\<rparr>)"
    by simp
  with i s me show ?thesis by (intro conjI)
qed

section \<open>Recovery of the images of a crashed peer\<close>

lemma getIdByHash_loop_eq:
  "set js \<subseteq> fst ` set c \<Longrightarrow>
   getIdByHash_loop c js h = Inr (find (\<lambda>j. h \<in> set (hash (entry_or_default c j))) js)"
proof (induction js)
  case Nil
  show ?case by simp
next
  case (Cons j js)
  from Cons.prems have "j \<in> set (getIds ord c)" for ord by simp
  from getHashes_mem [OF this] Cons show ?case by simp
qed

lemma getIdByHash_eq:
  "getIdByHash ord c h = Inr (find (\<lambda>j. h \<in> set (hash (entry_or_default c j))) (getIds ord c))"
  unfolding getIdByHash_def by (rule getIdByHash_loop_eq) simp

lemma send_peer_exact:
  assumes "reachable s i"
  shows "send_peer s i m = Inr (s\<lparr>send_conn := set_add i (send_conn s), sent := sent s @ [(ToPeer i, m)]\<rparr>)"
proof -
  from send_peer_total [OF assms] obtain s' where s': "send_peer s i m = Inr s'" by blast
  from send_peer_eq [OF s'] s' show ?thesis by (simp add: set_add_def)
qed

lemma recover_hash_none:
  "getIdByHash (set_order s) (net_info s) h = Inr None \<Longrightarrow> recover_hash me b h s = Inr s"
  by (simp add: recover_hash_def)

lemma recover_hash_other:
  assumes "getIdByHash (set_order s) (net_info s) h = Inr (Some owner)" "owner \<noteq> me" "reachable s owner"
  shows "recover_hash me b h s = Inr (s\<lparr>own_request := set_add h (own_request s),
           send_conn := set_add owner (send_conn s),
           sent := sent s @ [(ToPeer owner, RequestImageMessage me h)]\<rparr>)"
proof -
  have "reachable (s\<lparr>own_request := set_add h (own_request s)\<rparr>) owner"
    using assms(3) by (simp add: reachable_def)
  from send_peer_exact [OF this, of "RequestImageMessage me h"] assms(1,2) show ?thesis
    by (simp add: recover_hash_def)
qed

lemma recover_hash_self:
  assumes "getIdByHash (set_order s) (net_info s) h = Inr (Some me)" "getImage s h = Inr im"
    "getFname s h = Inr fn" "reachable s b"
  shows "recover_hash me b h s = Inr (s\<lparr>send_conn := set_add b (send_conn s),
           sent := sent s @ [(ToPeer b, ImageMessage me h im fn True)]\<rparr>)"
  using send_peer_exact [OF assms(4), of "ImageMessage me h im fn True"] assms(1-3)
  by (simp add: recover_hash_def)

lemma recover_hash_frame:
  assumes "recover_hash me b h s = Inr s'"
  shows "net_info s' = net_info s \<and> set_order s' = set_order s \<and> self_id s' = self_id s
    \<and> images s' = images s \<and> disk s' = disk s \<and> folder_path s' = folder_path s
    \<and> set (send_conn s) \<subseteq> set (send_conn s')"
proof -
  from assms obtain r where r: "getIdByHash (set_order s) (net_info s) h = Inr r"
    by (auto simp: recover_hash_def bindE_eq_Inr)
  show ?thesis
  proof (cases r)
    case None
    with r assms show ?thesis by (simp add: recover_hash_none)
  next
    case (Some owner)
    show ?thesis
    proof (cases "owner = me")
      case False
      with r Some assms have "send_peer (s\<lparr>own_request := set_add h (own_request s)\<rparr>) owner (RequestImageMessage me h) = Inr s'"
        by (simp add: recover_hash_def)
      from send_peer_eq [OF this] show ?thesis by (auto split: if_splits)
    next
      case True
      with r Some assms obtain im fn where "send_peer s b (ImageMessage me h im fn True) = Inr s'"
        by (auto simp: recover_hash_def bindE_eq_Inr)
      from send_peer_eq [OF this] show ?thesis by (auto split: if_splits)
    qed
  qed
qed

text \<open>
  C2, as the claim states it, fails: it lets the recoverer request a lost image whenever
  some other peer than itself still holds it. Here the recoverer, peer 1, and peer 2 both
  hold \<open>ff00\<close>; the ids 1 and 2 are iterated in this order and the lookup finds peer 1
  first, so the image goes to the backup peer 2 with the store flag, no
  \<^verbatim>\<open>request_image\<close> is sent and \<^verbatim>\<open>_own_request\<close> stays empty.
\<close>

theorem crash_recovery_counterexample:
  "self_id recoverer = Some 1
   \<and> getHashes (net_info recoverer) 3 = Inr [''ff00'', ''0f0f'']
   \<and> getHashes (AList.delete 3 (net_info recoverer)) 2 = Inr [''ff00'']
   \<and> own_request recoverer = []
   \<and> crashHandler recoverer 3 =
      Inr (recoverer\<lparr>net_info := [(1, \<lparr>addr = Some (''localhost'', 5000), hash = [''ff00''], fsize = 7\<rparr>),
                                   (2, \<lparr>addr = Some (''localhost'', 5001), hash = [''ff00''], fsize = 9\<rparr>)],
                     sent := [(ToPeer 2, ImageMessage 1 ''ff00''
                          \<lparr>phash = ''ff00'', width = 4, height = 2, colours = 3, nbytes = 7\<rparr> ''a.png'' True)]\<rparr>)"
  by (simp add: crashHandler_def recoverer_def getHashes_def dict_get_def ids_sorted_def getIds_def
      slot_order_def getSize_def Let_def get_id_def recover_hash_def getIdByHash_def getImage_def
      getFname_def fs_open_def os_path_join_def suffix_to_prefix send_peer_def getSendConn_def)

text \<open>
  What \<^verbatim>\<open>recover_hash\<close> does with a hash, by who holds it in the catalog; \<open>holds j\<close> says
  that \<open>j\<close> is an id of the catalog whose hash-set has the hash. The order in which the ids
  are iterated plays no part in the three cases.
\<close>

lemma recover_hash_by_holders:
  fixes s :: daemon and h :: hashcode and me id_backup :: peer_id
  defines "holds \<equiv> \<lambda>j. j \<in> set (getIds (set_order s) (net_info s))
                          \<and> h \<in> set (hash (entry_or_default (net_info s) j))"
  shows "((\<exists>j. j \<noteq> me \<and> holds j) \<and> \<not> holds me \<and> (\<forall>j. j \<noteq> me \<and> holds j \<longrightarrow> reachable s j)
            \<longrightarrow> (\<exists>owner. owner \<noteq> me \<and> holds owner
                  \<and> recover_hash me id_backup h s =
                      Inr (s\<lparr>own_request := set_add h (own_request s),
                             send_conn := set_add owner (send_conn s),
                             sent := sent s @ [(ToPeer owner, RequestImageMessage me h)]\<rparr>)))
       \<and> (holds me \<and> (\<forall>j. j \<noteq> me \<longrightarrow> \<not> holds j)
            \<longrightarrow> (\<forall>im fn. getImage s h = Inr im \<and> getFname s h = Inr fn \<and> reachable s id_backup
                  \<longrightarrow> recover_hash me id_backup h s =
                      Inr (s\<lparr>send_conn := set_add id_backup (send_conn s),
                             sent := sent s @ [(ToPeer id_backup, ImageMessage me h im fn True)]\<rparr>)))
       \<and> ((\<forall>j. \<not> holds j) \<longrightarrow> recover_hash me id_backup h s = Inr s)"
proof -
  let ?P = "\<lambda>j. h \<in> set (hash (entry_or_default (net_info s) j))"
  let ?ids = "getIds (set_order s) (net_info s)"
  have g: "getIdByHash (set_order s) (net_info s) h = Inr (find ?P ?ids)"
    by (rule getIdByHash_eq)
  have found: "holds owner" if "find ?P ?ids = Some owner" for owner
  proof -
    from that obtain k where "k < length ?ids" "?P (?ids ! k)" "owner = ?ids ! k"
      unfolding find_Some_iff by blast
    then show ?thesis unfolding holds_def using nth_mem by blast
  qed
  have some: "\<exists>owner. find ?P ?ids = Some owner" if "holds j" for j
  proof (cases "find ?P ?ids")
    case None
    with that show ?thesis unfolding find_None_iff holds_def by blast
  next
    case (Some owner)
    then show ?thesis by blast
  qed
  have a: "\<exists>owner. owner \<noteq> me \<and> holds owner
                  \<and> recover_hash me id_backup h s =
                      Inr (s\<lparr>own_request := set_add h (own_request s),
                             send_conn := set_add owner (send_conn s),
                             sent := sent s @ [(ToPeer owner, RequestImageMessage me h)]\<rparr>)"
    if ex: "\<exists>j. j \<noteq> me \<and> holds j" and nme: "\<not> holds me"
      and r: "\<forall>j. j \<noteq> me \<and> holds j \<longrightarrow> reachable s j"
  proof -
    from ex obtain j where "holds j" by blast
    from some [OF this] obtain owner where o: "find ?P ?ids = Some owner" by blast
    from found [OF o] have ho: "holds owner" .
    with nme have ne: "owner \<noteq> me" by blast
    with ho r have "reachable s owner" by blast
    from recover_hash_other [OF g [unfolded o] ne this, of id_backup] ne ho show ?thesis by blast
  qed
  have b: "recover_hash me id_backup h s =
                      Inr (s\<lparr>send_conn := set_add id_backup (send_conn s),
                             sent := sent s @ [(ToPeer id_backup, ImageMessage me h im fn True)]\<rparr>)"
    if hme: "holds me" and only: "\<forall>j. j \<noteq> me \<longrightarrow> \<not> holds j"
      and rest: "getImage s h = Inr im" "getFname s h = Inr fn" "reachable s id_backup" for im fn
  proof -
    from some [OF hme] obtain owner where o: "find ?P ?ids = Some owner" by blast
    from found [OF o] only have "owner = me" by blast
    with o have "getIdByHash (set_order s) (net_info s) h = Inr (Some me)" using g by simp
    from recover_hash_self [OF this rest] show ?thesis .
  qed
  have c: "recover_hash me id_backup h s = Inr s" if "\<forall>j. \<not> holds j"
  proof -
    have "find ?P ?ids = None"
    proof (cases "find ?P ?ids")
      case (Some owner)
      from found [OF this] that show ?thesis by blast
    qed simp
    with g have "getIdByHash (set_order s) (net_info s) h = Inr None" by simp
    then show ?thesis by (rule recover_hash_none)
  qed
  show ?thesis
  proof (intro conjI impI allI)
    assume "(\<exists>j. j \<noteq> me \<and> holds j) \<and> \<not> holds me \<and> (\<forall>j. j \<noteq> me \<and> holds j \<longrightarrow> reachable s j)"
    then show "\<exists>owner. owner \<noteq> me \<and> holds owner
                  \<and> recover_hash me id_backup h s =
                      Inr (s\<lparr>own_request := set_add h (own_request s),
                             send_conn := set_add owner (send_conn s),
                             sent := sent s @ [(ToPeer owner, RequestImageMessage me h)]\<rparr>)"
      using a by blast
  next
    fix im fn
    assume "holds me \<and> (\<forall>j. j \<noteq> me \<longrightarrow> \<not> holds j)"
      and "getImage s h = Inr im \<and> getFname s h = Inr fn \<and> reachable s id_backup"
    then show "recover_hash me id_backup h s =
                      Inr (s\<lparr>send_conn := set_add id_backup (send_conn s),
                             sent := sent s @ [(ToPeer id_backup, ImageMessage me h im fn True)]\<rparr>)"
      using b by blast
  next
    assume "\<forall>j. \<not> holds j"
    then show "recover_hash me id_backup h s = Inr s" by (rule c)
  qed
qed

text \<open>
  C2, amended. At the designated peer the handler runs \<^verbatim>\<open>recover_hash\<close> on every hash of
  the snapshot of the crashed entry, one after the other, on the catalog without that entry;
  a step changes neither the catalog nor the folder nor the image index. For a hash that
  some remaining entry other than the recoverer's holds and the recoverer's own entry does
  not hold, the recoverer adds the hash to \<^verbatim>\<open>_own_request\<close> and sends a
  \<^verbatim>\<open>request_image\<close> for it to one of these holders. For a hash that the entry of the
  recoverer is the only one to hold, it sends the image to the backup peer, the second of
  the sorted list, with the store flag, and leaves \<^verbatim>\<open>_own_request\<close> alone. For a hash
  that no entry holds, it sends nothing and the state is unchanged, so the loop goes on to
  the next hash. Nothing is said of a hash that both the recoverer and another peer hold:
  there the outcome depends on the order in which the set of ids is iterated. The sends
  assume that the peer written to can be reached, and the image can be read.
\<close>

theorem crash_recovery:
  assumes i: "i \<in> set (getIds (set_order d) (net_info d))"
    and s: "ids_sorted (set_order d) (AList.delete i (net_info d)) = Inr (me # id_backup # others)"
    and me: "self_id d = Some me"
  shows "getHashes (net_info d) i = Inr (hash (entry_or_default (net_info d) i))
    \<and> crashHandler d i =
       foldE (recover_hash me id_backup) (hash (entry_or_default (net_info d) i))
         (d\<lparr>net_info := AList.delete i (net_info d)\<rparr>)
    \<and> (\<forall>s h.
         let holds = (\<lambda>j. j \<in> set (getIds (set_order s) (net_info s))
                          \<and> h \<in> set (hash (entry_or_default (net_info s) j)))
         in ((\<exists>j. j \<noteq> me \<and> holds j) \<and> \<not> holds me \<and> (\<forall>j. j \<noteq> me \<and> holds j \<longrightarrow> reachable s j)
               \<longrightarrow> (\<exists>owner. owner \<noteq> me \<and> holds owner
                     \<and> recover_hash me id_backup h s =
                         Inr (s\<lparr>own_request := set_add h (own_request s),
                                send_conn := set_add owner (send_conn s),
                                sent := sent s @ [(ToPeer owner, RequestImageMessage me h)]\<rparr>)))
          \<and> (holds me \<and> (\<forall>j. j \<noteq> me \<longrightarrow> \<not> holds j)
               \<longrightarrow> (\<forall>im fn. getImage s h = Inr im \<and> getFname s h = Inr fn \<and> reachable s id_backup
                     \<longrightarrow> recover_hash me id_backup h s =
                         Inr (s\<lparr>send_conn := set_add id_backup (send_conn s),
                                sent := sent s @ [(ToPeer id_backup, ImageMessage me h im fn True)]\<rparr>)))
          \<and> ((\<forall>j. \<not> holds j) \<longrightarrow> recover_hash me id_backup h s = Inr s))
    \<and> (\<forall>s h s'. recover_hash me id_backup h s = Inr s' \<longrightarrow>
          net_info s' = net_info s \<and> set_order s' = set_order s \<and> self_id s' = self_id s
          \<and> images s' = images s \<and> disk s' = disk s \<and> folder_path s' = folder_path s
          \<and> set (send_conn s) \<subseteq> set (send_conn s'))"
proof -
  have a: "getHashes (net_info d) i = Inr (hash (entry_or_default (net_info d) i))"
    using i by (rule getHashes_mem)
  have b: "crashHandler d i =
       foldE (recover_hash me id_backup) (hash (entry_or_default (net_info d) i))
         (d\<lparr>net_info := AList.delete i (net_info d)\<rparr>)"
    using me by (simp add: crashHandler_unfold [OF i refl s] get_id_def)
  have c: "\<forall>s h.
         let holds = (\<lambda>j. j \<in> set (getIds (set_order s) (net_info s))
                          \<and> h \<in> set (hash (entry_or_default (net_info s) j)))
         in ((\<exists>j. j \<noteq> me \<and> holds j) \<and> \<not> holds me \<and> (\<forall>j. j \<noteq> me \<and> holds j \<longrightarrow> reachable s j)
               \<longrightarrow> (\<exists>owner. owner \<noteq> me \<and> holds owner
                     \<and> recover_hash me id_backup h s =
                         Inr (s\<lparr>own_request := set_add h (own_request s),
                                send_conn := set_add owner (send_conn s),
                                sent := sent s @ [(ToPeer owner, RequestImageMessage me h)]\<rparr>)))
          \<and> (holds me \<and> (\<forall>j. j \<noteq> me \<longrightarrow> \<not> holds j)
               \<longrightarrow> (\<forall>im fn. getImage s h = Inr im \<and> getFname s h = Inr fn \<and> reachable s id_backup
                     \<longrightarrow> recover_hash me id_backup h s =
                         Inr (s\<lparr>send_conn := set_add id_backup (send_conn s),
                                sent := sent s @ [(ToPeer id_backup, ImageMessage me h im fn True)]\<rparr>)))
          \<and> ((\<forall>j. \<not> holds j) \<longrightarrow> recover_hash me id_backup h s = Inr s)"
    unfolding Let_def by (intro allI) (rule recover_hash_by_holders)
  have e: "\<forall>s h s'. recover_hash me id_backup h s = Inr s' \<longrightarrow>
          net_info s' = net_info s \<and> set_order s' = set_order s \<and> self_id s' = self_id s
          \<and> images s' = images s \<and> disk s' = disk s \<and> folder_path s' = folder_path s
          \<and> set (send_conn s) \<subseteq> set (send_conn s')"
    by (intro allI impI) (erule recover_hash_frame)
  from a b c e show ?thesis by (intro conjI)
qed

theorem crash_recovery_witness:
  "3 \<in> set (getIds (set_order survivor) (net_info survivor))
   \<and> ids_sorted (set_order survivor) (AList.delete 3 (net_info survivor)) = Inr [1, 2]
   \<and> self_id survivor = Some 1
   \<and> getHashes (net_info survivor) 3 = Inr [''ff00'', ''0f0f'', ''3c3c'']
   \<and> crashHandler survivor 3 =
       Inr (survivor\<lparr>net_info := [(1, \<lparr>addr = Some (''localhost'', 5000), hash = [''ff00''], fsize = 7\<rparr>),
                                  (2, \<lparr>addr = Some (''localhost'', 5001), hash = [''0f0f''], fsize = 9\<rparr>)],
                     own_request := [''0f0f''], send_conn := [3, 2],
                     sent := [(ToPeer 2, ImageMessage 1 ''ff00''
                                 \<lparr>phash = ''ff00'', width = 4, height = 2, colours = 3, nbytes = 7\<rparr> ''a.png'' True),
                              (ToPeer 2, RequestImageMessage 1 ''0f0f'')]\<rparr>)"
proof -
  have i: "3 \<in> set (getIds (set_order survivor) (net_info survivor))" by (simp add: survivor_def)
  have s: "ids_sorted (set_order survivor) (AList.delete 3 (net_info survivor)) = Inr [1, 2]"
    by (simp add: ids_sorted_def survivor_def getIds_def slot_order_def getSize_def dict_get_def Let_def)
  have me: "self_id survivor = Some 1" by (simp add: survivor_def)
  have h: "hash (entry_or_default (net_info survivor) 3) = [''ff00'', ''0f0f'', ''3c3c'']"
    by (simp add: entry_or_default_def survivor_def)
  note t = crash_recovery [OF i s me]
  from t [THEN conjunct1] h
  have g: "getHashes (net_info survivor) 3 = Inr [''ff00'', ''0f0f'', ''3c3c'']" by simp
  from t [THEN conjunct2, THEN conjunct1] h
  have f: "crashHandler survivor 3 =
       foldE (recover_hash 1 2) [''ff00'', ''0f0f'', ''3c3c'']
         (survivor\<lparr>net_info := AList.delete 3 (net_info survivor)\<rparr>)"
    by simp
  have "crashHandler survivor 3 =
       Inr (survivor\<lparr>net_info := [(1, \<lparr>addr = Some (''localhost'', 5000), hash = [''ff00''], fsize = 7\<rparr>),
                                  (2, \<lparr>addr = Some (''localhost'', 5001), hash = [''0f0f''], fsize = 9\<rparr>)],
                     own_request := [''0f0f''], send_conn := [3, 2],
                     sent := [(ToPeer 2, ImageMessage 1 ''ff00''
                                 \<lparr>phash = ''ff00'', width = 4, height = 2, colours = 3, nbytes = 7\<rparr> ''a.png'' True),
                              (ToPeer 2, RequestImageMessage 1 ''0f0f'')]\<rparr>)"
    unfolding f
    by (simp add: survivor_def recover_hash_def getIdByHash_def getIds_def slot_order_def Let_def
        getHashes_def dict_get_def getImage_def getFname_def fs_open_def os_path_join_def
        suffix_to_prefix send_peer_def getSendConn_def getAddr_def set_add_def)
  with i s me g show ?thesis by (intro conjI)
qed

section \<open>The distribution of the config handler\<close>

lemma getImage_cong:
  "images d' = images d \<Longrightarrow> disk d' = disk d \<Longrightarrow> folder_path d' = folder_path d
   \<Longrightarrow> getImage d' h = getImage d h \<and> getFname d' h = getFname d h"
  by (simp add: getImage_def getFname_def fs_open_def)

lemma place_eq:
  assumes "place ids me h i d = Inr d'"
  shows "\<exists>im fn. getImage d h = Inr im \<and> getFname d h = Inr fn
     \<and> d' = d\<lparr>send_conn := set_add (ids ! i) (send_conn d),
              sent := sent d @ [(ToPeer (ids ! i), ImageMessage me h im fn True)]\<rparr>"
proof -
  from assms obtain im fn where g: "getImage d h = Inr im" "getFname d h = Inr fn"
    and "send_peer d (ids ! i) (ImageMessage me h im fn True) = Inr d'"
    by (auto simp: place_def bindE_eq_Inr)
  from send_peer_eq [OF this(3)] g show ?thesis by (auto simp: set_add_def)
qed

lemma place_total:
  assumes "getImage d h = Inr im" "getFname d h = Inr fn" "reachable d (ids ! i)"
  shows "place ids me h i d = Inr (d\<lparr>send_conn := set_add (ids ! i) (send_conn d),
              sent := sent d @ [(ToPeer (ids ! i), ImageMessage me h im fn True)]\<rparr>)"
  using send_peer_exact [OF assms(3), of "ImageMessage me h im fn True"] assms(1,2)
  by (simp add: place_def)

lemma distribute_terminates:
  assumes "\<exists>j\<in>set ids. j \<noteq> me"
  shows "\<exists>r. distribute ids me hs i d = Some r"
proof (induction hs arbitrary: i d)
  case Nil
  show ?case by simp
next
  case (Cons h hs)
  from next_peer_within_pass [OF assms, of i] obtain i' where np: "next_peer ids me i = Some (Inr i')"
    by blast
  show ?case
  proof (cases "place ids me h i' d")
    case (Inl e)
    with np show ?thesis by simp
  next
    case (Inr d')
    with np Cons.IH [of i' d'] show ?thesis by simp
  qed
qed

text \<open>
  A distribution that ends without an exception has sent one message per hash, in the order
  of the hashes: the image of that hash with its file name and the store flag, to an id of
  the list other than self.
\<close>

lemma distribute_sent:
  assumes "distribute ids me hs i d = Some (Inr d')"
  shows "net_info d' = net_info d \<and> images d' = images d \<and> disk d' = disk d
     \<and> folder_path d' = folder_path d \<and> set (send_conn d) \<subseteq> set (send_conn d')
     \<and> (\<exists>msgs. sent d' = sent d @ msgs \<and>
     list_all2 (\<lambda>h m. \<exists>j im fn. getImage d h = Inr im \<and> getFname d h = Inr fn
          \<and> m = (ToPeer j, ImageMessage me h im fn True) \<and> j \<in> set ids \<and> j \<noteq> me) hs msgs)"
  using assms
proof (induction hs arbitrary: i d)
  case Nil
  then show ?case by simp
next
  case (Cons h hs)
  from Cons.prems obtain r where r: "next_peer ids me i = Some r"
    by (cases "next_peer ids me i") auto
  with Cons.prems obtain i' where i': "r = Inr i'" by (cases r) auto
  from next_peer_Some_other [OF r] i' r have other: "\<exists>j\<in>set ids. j \<noteq> me"
    by (cases "ids = []") (auto simp: next_peer.simps [of "[]"])
  from other have pos: "0 < length ids" by (cases ids) auto
  from next_peer_within_pass [OF other, of i] r i' obtain k where
    "i' = (i + Suc k) mod length ids" "ids ! ((i + Suc k) mod length ids) \<noteq> me" by auto
  with pos have good: "ids ! i' \<noteq> me" "i' < length ids" by simp_all
  from Cons.prems r i' obtain d1 where d1: "place ids me h i' d = Inr d1"
    and rest: "distribute ids me hs i' d1 = Some (Inr d')"
    by (cases "place ids me h i' d") auto
  from place_eq [OF d1] obtain im fn where g: "getImage d h = Inr im" "getFname d h = Inr fn" and
    e: "d1 = d\<lparr>send_conn := set_add (ids ! i') (send_conn d),
                sent := sent d @ [(ToPeer (ids ! i'), ImageMessage me h im fn True)]\<rparr>"
    by blast
  have same: "getImage d1 h' = getImage d h' \<and> getFname d1 h' = getFname d h'" for h'
    by (rule getImage_cong) (simp_all add: e)
  from Cons.IH [OF rest] obtain msgs where m: "net_info d' = net_info d1" "images d' = images d1"
    "disk d' = disk d1" "folder_path d' = folder_path d1" "set (send_conn d1) \<subseteq> set (send_conn d')"
    "sent d' = sent d1 @ msgs"
    "list_all2 (\<lambda>h m. \<exists>j im fn. getImage d1 h = Inr im \<and> getFname d1 h = Inr fn
          \<and> m = (ToPeer j, ImageMessage me h im fn True) \<and> j \<in> set ids \<and> j \<noteq> me) hs msgs"
    by blast
  have l: "list_all2 (\<lambda>h m. \<exists>j im fn. getImage d h = Inr im \<and> getFname d h = Inr fn
          \<and> m = (ToPeer j, ImageMessage me h im fn True) \<and> j \<in> set ids \<and> j \<noteq> me) hs msgs"
    using m(7) unfolding same [THEN conjunct1] same [THEN conjunct2] .
  have "sent d' = sent d @ ((ToPeer (ids ! i'), ImageMessage me h im fn True) # msgs)"
    using m(6) e by simp
  moreover have "list_all2 (\<lambda>h m. \<exists>j im fn. getImage d h = Inr im \<and> getFname d h = Inr fn
          \<and> m = (ToPeer j, ImageMessage me h im fn True) \<and> j \<in> set ids \<and> j \<noteq> me)
      (h # hs) ((ToPeer (ids ! i'), ImageMessage me h im fn True) # msgs)"
    using l g good nth_mem [OF good(2)] by auto
  moreover have "net_info d' = net_info d" "images d' = images d" "disk d' = disk d"
    "folder_path d' = folder_path d" using m(1-4) e by simp_all
  moreover have "set (send_conn d) \<subseteq> set (send_conn d')" using m(5) e by (auto simp: set_add_def)
  ultimately show ?case by blast
qed

text \<open>
  When the list holds an id other than self, every image to place can be read and every
  other peer of the list can be reached, the distribution ends without an exception.
\<close>

lemma distribute_total:
  assumes other: "\<exists>j\<in>set ids. j \<noteq> me"
  shows "(\<forall>h\<in>set hs. \<exists>im fn. getImage d h = Inr im \<and> getFname d h = Inr fn)
    \<Longrightarrow> (\<forall>j\<in>set ids. j \<noteq> me \<longrightarrow> reachable d j)
    \<Longrightarrow> \<exists>d'. distribute ids me hs i d = Some (Inr d')"
proof (induction hs arbitrary: i d)
  case Nil
  show ?case by simp
next
  case (Cons h hs)
  from other have pos: "0 < length ids" by (cases ids) auto
  from next_peer_within_pass [OF other, of i] obtain k where
    np: "next_peer ids me i = Some (Inr ((i + Suc k) mod length ids))"
    and ne: "ids ! ((i + Suc k) mod length ids) \<noteq> me" by blast
  define i' where "i' = (i + Suc k) mod length ids"
  from pos have "i' < length ids" by (simp add: i'_def)
  then have "ids ! i' \<in> set ids" by (rule nth_mem)
  with ne Cons.prems(2) have r: "reachable d (ids ! i')" by (simp add: i'_def)
  from Cons.prems(1) obtain im fn where g: "getImage d h = Inr im" "getFname d h = Inr fn" by auto
  define d1 where "d1 = d\<lparr>send_conn := set_add (ids ! i') (send_conn d),
              sent := sent d @ [(ToPeer (ids ! i'), ImageMessage me h im fn True)]\<rparr>"
  have p: "place ids me h i' d = Inr d1" unfolding d1_def by (rule place_total [OF g r])
  have same: "getImage d1 h' = getImage d h' \<and> getFname d1 h' = getFname d h'" for h'
    by (rule getImage_cong) (simp_all add: d1_def)
  have a: "\<forall>h\<in>set hs. \<exists>im fn. getImage d1 h = Inr im \<and> getFname d1 h = Inr fn"
    using Cons.prems(1) by (simp add: same)
  have b: "\<forall>j\<in>set ids. j \<noteq> me \<longrightarrow> reachable d1 j"
  proof (intro ballI impI)
    fix j assume "j \<in> set ids" "j \<noteq> me"
    with Cons.prems(2) have "reachable d j" by blast
    then show "reachable d1 j" by (rule reachable_cong [rotated 2]) (auto simp: d1_def set_add_def)
  qed
  from Cons.IH [OF a b, of i'] obtain d' where "distribute ids me hs i' d1 = Some (Inr d')" by blast
  with np p show ?case by (simp add: i'_def)
qed

lemma broadcast_frame:
  "broadcast me m d = Inr d' \<Longrightarrow> net_info d' = net_info d \<and> set_order d' = set_order d"
  unfolding broadcast_def by (drule send_fold) auto

lemma parseFolder_set_order:
  assumes "parseFolder d = Inr d'"
  shows "set_order d' = set_order d"
proof (cases "self_id d")
  case None
  from parseFolder_no_id [OF this assms] show ?thesis ..
next
  case (Some me)
  from parseFolder_loop [OF assms] obtain d1 t hs where
    "foldE parse_file (map fst (disk d)) (d, [], []) = Inr (d1, t, hs)" by blast
  from parseFolder_eq [OF this Some] assms show ?thesis by auto
qed

lemma config_prepare_ids:
  assumes "config_prepare d from_id new_id ni = Inr d4"
  shows "set (getIds (set_order d4) (net_info d4)) = insert new_id (set (getIds ord ni))"
proof -
  define d2 where "d2 = d\<lparr>self_id := Some new_id, net_info := ni, send_conn := set_add from_id (send_conn d)\<rparr>"
  from assms obtain d3 m where p: "parseFolder d2 = Inr d3" and b: "broadcast new_id m d3 = Inr d4"
    by (auto simp: config_prepare_def Let_def d2_def bindE_eq_Inr split: if_splits)
  have me: "self_id d2 = Some new_id" by (simp add: d2_def)
  from parseFolder_loop [OF p] obtain d1 t hs where
    "foldE parse_file (map fst (disk d2)) (d2, [], []) = Inr (d1, t, hs)" by blast
  from parseFolder_eq [OF this me] p obtain c3 where
    "net_info d3 = AList.update new_id ((entry_or_default c3 new_id)\<lparr>fsize := getFolderSize d1\<rparr>) c3"
    "fst ` set (net_info d2) \<subseteq> fst ` set c3" "fst ` set c3 \<subseteq> insert new_id (fst ` set (net_info d2))"
    by auto
  then have "fst ` set (net_info d3) = insert new_id (fst ` set ni)"
    by (auto simp: dom_update d2_def)
  with broadcast_frame [OF b] show ?thesis by simp
qed

lemma action_config_terminates:
  assumes "from_id \<in> set (getIds ord ni)" "from_id \<noteq> new_id"
  shows "\<exists>r. action_config d from_id new_id ni = Some r"
proof (cases "config_prepare d from_id new_id ni")
  case (Inl e)
  then show ?thesis by (simp add: action_config_def)
next
  case (Inr d4)
  from config_prepare_ids [OF Inr, of ord] assms
  have other: "\<exists>j\<in>set (getIds (set_order d4) (net_info d4)). j \<noteq> new_id"
    by auto
  show ?thesis
  proof (cases "getHashes (net_info d4) new_id")
    case (Inl e)
    with Inr show ?thesis by (simp add: action_config_def)
  next
    case hs: (Inr hashes)
    from distribute_terminates [OF other, of hashes 0 d4] Inr hs show ?thesis
      by (simp add: action_config_def)
  qed
qed

lemma action_config_sent:
  assumes "action_config d from_id new_id ni = Some (Inr d')"
  shows "\<exists>d4 hashes msgs. config_prepare d from_id new_id ni = Inr d4
      \<and> getHashes (net_info d4) new_id = Inr hashes
      \<and> sent d' = sent d4 @ msgs
      \<and> list_all2 (\<lambda>h m. \<exists>j im fn. getImage d4 h = Inr im \<and> getFname d4 h = Inr fn
                       \<and> m = (ToPeer j, ImageMessage new_id h im fn True)
                       \<and> j \<in> set (getIds (set_order d4) (net_info d4)) \<and> j \<noteq> new_id) hashes msgs"
proof -
  from assms obtain d4 where d4: "config_prepare d from_id new_id ni = Inr d4"
    by (cases "config_prepare d from_id new_id ni") (auto simp: action_config_def)
  with assms obtain hashes where hs: "getHashes (net_info d4) new_id = Inr hashes"
    by (cases "getHashes (net_info d4) new_id") (auto simp: action_config_def)
  with assms d4 have "distribute (getIds (set_order d4) (net_info d4)) new_id hashes 0 d4 = Some (Inr d')"
    by (simp add: action_config_def)
  from distribute_sent [OF this] d4 hs show ?thesis by blast
qed

lemma action_config_sends:
  assumes f: "from_id \<in> set (getIds ord ni)" "from_id \<noteq> new_id"
    and p: "config_prepare d from_id new_id ni = Inr d4"
    and g: "getHashes (net_info d4) new_id = Inr hashes"
    and im: "\<forall>h\<in>set hashes. \<exists>im fn. getImage d4 h = Inr im \<and> getFname d4 h = Inr fn"
    and r: "\<forall>j\<in>set (getIds (set_order d4) (net_info d4)). j \<noteq> new_id \<longrightarrow> reachable d4 j"
  shows "\<exists>d' msgs. action_config d from_id new_id ni = Some (Inr d')
      \<and> sent d' = sent d4 @ msgs
      \<and> list_all2 (\<lambda>h m. \<exists>j im fn. getImage d4 h = Inr im \<and> getFname d4 h = Inr fn
                       \<and> m = (ToPeer j, ImageMessage new_id h im fn True)
                       \<and> j \<in> set (getIds (set_order d4) (net_info d4)) \<and> j \<noteq> new_id) hashes msgs"
proof -
  from config_prepare_ids [OF p, of ord] f
  have other: "\<exists>j\<in>set (getIds (set_order d4) (net_info d4)). j \<noteq> new_id"
    by auto
  from distribute_total [OF other im r, of 0] obtain d' where
    d': "distribute (getIds (set_order d4) (net_info d4)) new_id hashes 0 d4 = Some (Inr d')" by blast
  with p g have a: "action_config d from_id new_id ni = Some (Inr d')" by (simp add: action_config_def)
  from distribute_sent [OF d'] a show ?thesis by blast
qed

text \<open>
  C9. In the list of ids the config handler walks, which always holds the id of the peer
  itself, the inner loop returns exactly when the list holds some other id. When the catalog
  of the \<^verbatim>\<open>config\<close> message holds the introducer and the joiner, the handler returns;
  from every index the loop stops within one pass over the list, at the first id other than
  self it comes to. A handler that ends without an exception has sent, after the update,
  exactly one \<^verbatim>\<open>image\<close> message with the store flag per local hash, one after the
  other as the loop takes the hashes, each carrying the image and the file name of its hash, to a peer of the catalog
  other than self. And the handler does end so, with these messages sent, once it has come
  to the distribution, when every local image can be read and every other peer of the
  catalog can be reached.
\<close>

theorem config_distribution:
  "(me \<in> set ids \<longrightarrow> ((\<exists>r. next_peer ids me i = Some r) \<longleftrightarrow> (\<exists>j\<in>set ids. j \<noteq> me)))
   \<and> (\<forall>d4. config_prepare d from_id new_id ni = Inr d4 \<longrightarrow>
         new_id \<in> set (getIds (set_order d4) (net_info d4)))
   \<and> (from_id \<in> set (getIds (set_order d) ni) \<and> new_id \<in> set (getIds (set_order d) ni)
        \<and> from_id \<noteq> new_id \<longrightarrow>
        (\<exists>r. action_config d from_id new_id ni = Some r)
      \<and> (\<forall>d4 i. config_prepare d from_id new_id ni = Inr d4 \<longrightarrow>
            (\<exists>k<length (getIds (set_order d4) (net_info d4)).
                 next_peer (getIds (set_order d4) (net_info d4)) new_id i
                   = Some (Inr ((i + Suc k) mod length (getIds (set_order d4) (net_info d4))))
               \<and> getIds (set_order d4) (net_info d4)
                    ! ((i + Suc k) mod length (getIds (set_order d4) (net_info d4))) \<noteq> new_id
               \<and> (\<forall>k'<k. getIds (set_order d4) (net_info d4)
                    ! ((i + Suc k') mod length (getIds (set_order d4) (net_info d4))) = new_id)))
      \<and> (\<forall>d'. action_config d from_id new_id ni = Some (Inr d') \<longrightarrow>
            (\<exists>d4 hashes msgs. config_prepare d from_id new_id ni = Inr d4
               \<and> getHashes (net_info d4) new_id = Inr hashes
               \<and> sent d' = sent d4 @ msgs
               \<and> list_all2 (\<lambda>h m. \<exists>j im fn. getImage d4 h = Inr im \<and> getFname d4 h = Inr fn
                       \<and> m = (ToPeer j, ImageMessage new_id h im fn True)
                       \<and> j \<in> set (getIds (set_order d4) (net_info d4)) \<and> j \<noteq> new_id) hashes msgs))
      \<and> (\<forall>d4 hashes. config_prepare d from_id new_id ni = Inr d4
               \<and> getHashes (net_info d4) new_id = Inr hashes
               \<and> (\<forall>h\<in>set hashes. \<exists>im fn. getImage d4 h = Inr im \<and> getFname d4 h = Inr fn)
               \<and> (\<forall>j\<in>set (getIds (set_order d4) (net_info d4)). j \<noteq> new_id \<longrightarrow> reachable d4 j) \<longrightarrow>
            (\<exists>d' msgs. action_config d from_id new_id ni = Some (Inr d')
               \<and> sent d' = sent d4 @ msgs
               \<and> list_all2 (\<lambda>h m. \<exists>j im fn. getImage d4 h = Inr im \<and> getFname d4 h = Inr fn
                       \<and> m = (ToPeer j, ImageMessage new_id h im fn True)
                       \<and> j \<in> set (getIds (set_order d4) (net_info d4)) \<and> j \<noteq> new_id) hashes msgs)))"
proof -
  let ?pre = "from_id \<in> set (getIds (set_order d) ni) \<and> new_id \<in> set (getIds (set_order d) ni)
        \<and> from_id \<noteq> new_id"
  have a: "me \<in> set ids \<longrightarrow> ((\<exists>r. next_peer ids me i = Some r) \<longleftrightarrow> (\<exists>j\<in>set ids. j \<noteq> me))"
    using next_peer_terminates_iff [of me ids i] by blast
  have b: "\<forall>d4. config_prepare d from_id new_id ni = Inr d4 \<longrightarrow>
         new_id \<in> set (getIds (set_order d4) (net_info d4))"
  proof (intro allI impI)
    fix d4 assume "config_prepare d from_id new_id ni = Inr d4"
    from config_prepare_ids [OF this, of "set_order d"]
    show "new_id \<in> set (getIds (set_order d4) (net_info d4))" by blast
  qed
  have c: "\<exists>r. action_config d from_id new_id ni = Some r" if ?pre
    using that action_config_terminates [of from_id "set_order d" ni new_id d] by blast
  have e: "\<forall>d4 i. config_prepare d from_id new_id ni = Inr d4 \<longrightarrow>
            (\<exists>k<length (getIds (set_order d4) (net_info d4)).
                 next_peer (getIds (set_order d4) (net_info d4)) new_id i
                   = Some (Inr ((i + Suc k) mod length (getIds (set_order d4) (net_info d4))))
               \<and> getIds (set_order d4) (net_info d4)
                    ! ((i + Suc k) mod length (getIds (set_order d4) (net_info d4))) \<noteq> new_id
               \<and> (\<forall>k'<k. getIds (set_order d4) (net_info d4)
                    ! ((i + Suc k') mod length (getIds (set_order d4) (net_info d4))) = new_id))"
    if ?pre
  proof (intro impI allI)
    fix d4 i
    assume p: "config_prepare d from_id new_id ni = Inr d4"
    from config_prepare_ids [OF p, of "set_order d"] that
    have "\<exists>j\<in>set (getIds (set_order d4) (net_info d4)). j \<noteq> new_id" by auto
    from next_peer_within_pass [OF this, of i]
    show "\<exists>k<length (getIds (set_order d4) (net_info d4)).
                 next_peer (getIds (set_order d4) (net_info d4)) new_id i
                   = Some (Inr ((i + Suc k) mod length (getIds (set_order d4) (net_info d4))))
               \<and> getIds (set_order d4) (net_info d4)
                    ! ((i + Suc k) mod length (getIds (set_order d4) (net_info d4))) \<noteq> new_id
               \<and> (\<forall>k'<k. getIds (set_order d4) (net_info d4)
                    ! ((i + Suc k') mod length (getIds (set_order d4) (net_info d4))) = new_id)" .
  qed
  have g: "\<forall>d'. action_config d from_id new_id ni = Some (Inr d') \<longrightarrow>
            (\<exists>d4 hashes msgs. config_prepare d from_id new_id ni = Inr d4
               \<and> getHashes (net_info d4) new_id = Inr hashes
               \<and> sent d' = sent d4 @ msgs
               \<and> list_all2 (\<lambda>h m. \<exists>j im fn. getImage d4 h = Inr im \<and> getFname d4 h = Inr fn
                       \<and> m = (ToPeer j, ImageMessage new_id h im fn True)
                       \<and> j \<in> set (getIds (set_order d4) (net_info d4)) \<and> j \<noteq> new_id) hashes msgs)"
    by (intro allI impI) (erule action_config_sent)
  have k: "\<forall>d4 hashes. config_prepare d from_id new_id ni = Inr d4
               \<and> getHashes (net_info d4) new_id = Inr hashes
               \<and> (\<forall>h\<in>set hashes. \<exists>im fn. getImage d4 h = Inr im \<and> getFname d4 h = Inr fn)
               \<and> (\<forall>j\<in>set (getIds (set_order d4) (net_info d4)). j \<noteq> new_id \<longrightarrow> reachable d4 j) \<longrightarrow>
            (\<exists>d' msgs. action_config d from_id new_id ni = Some (Inr d')
               \<and> sent d' = sent d4 @ msgs
               \<and> list_all2 (\<lambda>h m. \<exists>j im fn. getImage d4 h = Inr im \<and> getFname d4 h = Inr fn
                       \<and> m = (ToPeer j, ImageMessage new_id h im fn True)
                       \<and> j \<in> set (getIds (set_order d4) (net_info d4)) \<and> j \<noteq> new_id) hashes msgs)"
    if ?pre
  proof (intro allI impI, elim conjE)
    fix d4 hashes
    assume p: "config_prepare d from_id new_id ni = Inr d4"
      and h: "getHashes (net_info d4) new_id = Inr hashes"
      and im: "\<forall>h\<in>set hashes. \<exists>im fn. getImage d4 h = Inr im \<and> getFname d4 h = Inr fn"
      and r: "\<forall>j\<in>set (getIds (set_order d4) (net_info d4)). j \<noteq> new_id \<longrightarrow> reachable d4 j"
    from that have f: "from_id \<in> set (getIds (set_order d) ni)" "from_id \<noteq> new_id" by blast+
    from action_config_sends [OF f p h im r]
    show "\<exists>d' msgs. action_config d from_id new_id ni = Some (Inr d')
               \<and> sent d' = sent d4 @ msgs
               \<and> list_all2 (\<lambda>h m. \<exists>j im fn. getImage d4 h = Inr im \<and> getFname d4 h = Inr fn
                       \<and> m = (ToPeer j, ImageMessage new_id h im fn True)
                       \<and> j \<in> set (getIds (set_order d4) (net_info d4)) \<and> j \<noteq> new_id) hashes msgs" .
  qed
  show ?thesis
  proof (intro conjI)
    show "me \<in> set ids \<longrightarrow> ((\<exists>r. next_peer ids me i = Some r) \<longleftrightarrow> (\<exists>j\<in>set ids. j \<noteq> me))"
      by (rule a)
    show "\<forall>d4. config_prepare d from_id new_id ni = Inr d4 \<longrightarrow>
         new_id \<in> set (getIds (set_order d4) (net_info d4))" by (rule b)
    show "?pre \<longrightarrow> (\<exists>r. action_config d from_id new_id ni = Some r) \<and>
      (\<forall>d4 i. config_prepare d from_id new_id ni = Inr d4 \<longrightarrow>
            (\<exists>k<length (getIds (set_order d4) (net_info d4)).
                 next_peer (getIds (set_order d4) (net_info d4)) new_id i
                   = Some (Inr ((i + Suc k) mod length (getIds (set_order d4) (net_info d4))))
               \<and> getIds (set_order d4) (net_info d4)
                    ! ((i + Suc k) mod length (getIds (set_order d4) (net_info d4))) \<noteq> new_id
               \<and> (\<forall>k'<k. getIds (set_order d4) (net_info d4)
                    ! ((i + Suc k') mod length (getIds (set_order d4) (net_info d4))) = new_id))) \<and>
      (\<forall>d'. action_config d from_id new_id ni = Some (Inr d') \<longrightarrow>
            (\<exists>d4 hashes msgs. config_prepare d from_id new_id ni = Inr d4
               \<and> getHashes (net_info d4) new_id = Inr hashes
               \<and> sent d' = sent d4 @ msgs
               \<and> list_all2 (\<lambda>h m. \<exists>j im fn. getImage d4 h = Inr im \<and> getFname d4 h = Inr fn
                       \<and> m = (ToPeer j, ImageMessage new_id h im fn True)
                       \<and> j \<in> set (getIds (set_order d4) (net_info d4)) \<and> j \<noteq> new_id) hashes msgs)) \<and>
      (\<forall>d4 hashes. config_prepare d from_id new_id ni = Inr d4
               \<and> getHashes (net_info d4) new_id = Inr hashes
               \<and> (\<forall>h\<in>set hashes. \<exists>im fn. getImage d4 h = Inr im \<and> getFname d4 h = Inr fn)
               \<and> (\<forall>j\<in>set (getIds (set_order d4) (net_info d4)). j \<noteq> new_id \<longrightarrow> reachable d4 j) \<longrightarrow>
            (\<exists>d' msgs. action_config d from_id new_id ni = Some (Inr d')
               \<and> sent d' = sent d4 @ msgs
               \<and> list_all2 (\<lambda>h m. \<exists>j im fn. getImage d4 h = Inr im \<and> getFname d4 h = Inr fn
                       \<and> m = (ToPeer j, ImageMessage new_id h im fn True)
                       \<and> j \<in> set (getIds (set_order d4) (net_info d4)) \<and> j \<noteq> new_id) hashes msgs))"
    proof (rule impI)
      assume pre: ?pre
      from c [OF pre] e [OF pre] g k [OF pre] show "(\<exists>r. action_config d from_id new_id ni = Some r) \<and>
      (\<forall>d4 i. config_prepare d from_id new_id ni = Inr d4 \<longrightarrow>
            (\<exists>k<length (getIds (set_order d4) (net_info d4)).
                 next_peer (getIds (set_order d4) (net_info d4)) new_id i
                   = Some (Inr ((i + Suc k) mod length (getIds (set_order d4) (net_info d4))))
               \<and> getIds (set_order d4) (net_info d4)
                    ! ((i + Suc k) mod length (getIds (set_order d4) (net_info d4))) \<noteq> new_id
               \<and> (\<forall>k'<k. getIds (set_order d4) (net_info d4)
                    ! ((i + Suc k') mod length (getIds (set_order d4) (net_info d4))) = new_id))) \<and>
      (\<forall>d'. action_config d from_id new_id ni = Some (Inr d') \<longrightarrow>
            (\<exists>d4 hashes msgs. config_prepare d from_id new_id ni = Inr d4
               \<and> getHashes (net_info d4) new_id = Inr hashes
               \<and> sent d' = sent d4 @ msgs
               \<and> list_all2 (\<lambda>h m. \<exists>j im fn. getImage d4 h = Inr im \<and> getFname d4 h = Inr fn
                       \<and> m = (ToPeer j, ImageMessage new_id h im fn True)
                       \<and> j \<in> set (getIds (set_order d4) (net_info d4)) \<and> j \<noteq> new_id) hashes msgs)) \<and>
      (\<forall>d4 hashes. config_prepare d from_id new_id ni = Inr d4
               \<and> getHashes (net_info d4) new_id = Inr hashes
               \<and> (\<forall>h\<in>set hashes. \<exists>im fn. getImage d4 h = Inr im \<and> getFname d4 h = Inr fn)
               \<and> (\<forall>j\<in>set (getIds (set_order d4) (net_info d4)). j \<noteq> new_id \<longrightarrow> reachable d4 j) \<longrightarrow>
            (\<exists>d' msgs. action_config d from_id new_id ni = Some (Inr d')
               \<and> sent d' = sent d4 @ msgs
               \<and> list_all2 (\<lambda>h m. \<exists>j im fn. getImage d4 h = Inr im \<and> getFname d4 h = Inr fn
                       \<and> m = (ToPeer j, ImageMessage new_id h im fn True)
                       \<and> j \<in> set (getIds (set_order d4) (net_info d4)) \<and> j \<noteq> new_id) hashes msgs))"
        by (intro conjI)
    qed
  qed
qed

lemma getIds_two: "getIds slot_order [(1::int, a), (2, b)] = [1, 2]"
  by (simp add: getIds_def slot_order_def Let_def)

theorem config_distribution_witness:
  "1 \<in> set (getIds (set_order joiner) cfg) \<and> 2 \<in> set (getIds (set_order joiner) cfg)
   \<and> config_prepare joiner 1 2 cfg = Inr configured
   \<and> getHashes (net_info configured) 2 = Inr [''0f0f'']
   \<and> reachable configured 1
   \<and> (\<exists>d'. action_config joiner 1 2 cfg = Some (Inr d')
          \<and> sent d' = sent configured @
               [(ToPeer 1, ImageMessage 2 ''0f0f''
                   \<lparr>phash = ''0f0f'', width = 2, height = 2, colours = 2, nbytes = 5\<rparr> ''b.png'' True)])"
proof -
  let ?pic = "\<lparr>phash = ''0f0f'', width = 2, height = 2, colours = 2, nbytes = 5\<rparr>"
  have h: "1 \<in> set (getIds (set_order joiner) cfg)" "2 \<in> set (getIds (set_order joiner) cfg)"
    by (simp_all add: cfg_def)
  have pre: "1 \<in> set (getIds (set_order joiner) cfg) \<and> 2 \<in> set (getIds (set_order joiner) cfg)
      \<and> (1::int) \<noteq> 2"
    using h by simp
  have prep: "config_prepare joiner 1 2 cfg = Inr configured"
    by (simp add: config_prepare_def joiner_def cfg_def configured_def Let_def set_add_def
        parseFolder_def parse_file_def valid_ext_def suffix_to_prefix fs_open_def os_path_join_def
        getNetHashes_def getIds_two getHashes_def dict_get_def get_id_def on_net_info_def
        addHash_eq setSize_eq entry_or_default_def getFolderSize_def getSize_def broadcast_def
        send_peer_def getSendConn_def)
  have g: "getHashes (net_info configured) 2 = Inr [''0f0f'']"
    by (simp add: configured_def getHashes_def dict_get_def)
  have im: "getImage configured ''0f0f'' = Inr ?pic" "getFname configured ''0f0f'' = Inr ''b.png''"
    by (simp_all add: configured_def joiner_def getImage_def getFname_def dict_get_def fs_open_def
        os_path_join_def suffix_to_prefix)
  have r: "reachable configured 1" by (simp add: reachable_def configured_def)
  have ids: "getIds (set_order configured) (net_info configured) = [1, 2]"
    by (simp add: configured_def joiner_def getIds_two)
  have all: "config_prepare joiner 1 2 cfg = Inr configured
      \<and> getHashes (net_info configured) 2 = Inr [''0f0f'']
      \<and> (\<forall>h\<in>set [''0f0f'']. \<exists>im fn. getImage configured h = Inr im \<and> getFname configured h = Inr fn)
      \<and> (\<forall>j\<in>set (getIds (set_order configured) (net_info configured)). j \<noteq> 2 \<longrightarrow> reachable configured j)"
    using prep g im r by (simp add: ids)
  note t = config_distribution [of 2 "[1, 2]" 0 joiner 1 2 cfg,
      THEN conjunct2, THEN conjunct2, THEN mp, OF pre]
  note k = t [THEN conjunct2, THEN conjunct2, THEN conjunct2, THEN spec, THEN spec, THEN mp, OF all]
  from k obtain d' msgs where d': "action_config joiner 1 2 cfg = Some (Inr d')"
    and s: "sent d' = sent configured @ msgs"
    and l: "list_all2 (\<lambda>h m. \<exists>j im fn. getImage configured h = Inr im \<and> getFname configured h = Inr fn
                       \<and> m = (ToPeer j, ImageMessage 2 h im fn True)
                       \<and> j \<in> set (getIds (set_order configured) (net_info configured)) \<and> j \<noteq> 2)
             [''0f0f''] msgs"
    by (elim exE conjE) (rule that, assumption+)
  from l obtain m where m: "msgs = [m]"
    and "\<exists>j im fn. getImage configured ''0f0f'' = Inr im \<and> getFname configured ''0f0f'' = Inr fn
                       \<and> m = (ToPeer j, ImageMessage 2 ''0f0f'' im fn True)
                       \<and> j \<in> set (getIds (set_order configured) (net_info configured)) \<and> j \<noteq> 2"
    by (auto simp del: set_getIds simp: list_all2_Cons1)
  then have "m = (ToPeer 1, ImageMessage 2 ''0f0f'' ?pic ''b.png'' True)"
    unfolding ids im by auto
  with s m have "sent d' = sent configured @ [(ToPeer 1, ImageMessage 2 ''0f0f'' ?pic ''b.png'' True)]"
    by simp
  with d' have "\<exists>d'. action_config joiner 1 2 cfg = Some (Inr d')
          \<and> sent d' = sent configured @ [(ToPeer 1, ImageMessage 2 ''0f0f'' ?pic ''b.png'' True)]"
    by blast
  with h prep g r show ?thesis by (intro conjI)
qed


section \<open>An image that arrives before the config\<close>

text \<open>
  C5. The claim: at every point after construction the hash-set of the peer's own catalog
  entry is the key set of \<^verbatim>\<open>_image\<close>, and image admission keeps it so. A peer that has
  sent its \<^verbatim>\<open>join\<close> listens already, and has no \<^verbatim>\<open>_id\<close> until the \<^verbatim>\<open>config\<close>
  arrives. An \<^verbatim>\<open>image\<close> message with the store flag that reaches it in between is
  admitted: \<^verbatim>\<open>addImage\<close> writes the file and the entry of \<^verbatim>\<open>_image\<close>, and then
  \<^verbatim>\<open>self.setSize(self._id, ...)\<close> raises \<^verbatim>\<open>AttributeError\<close>, before \<^verbatim>\<open>addHash\<close>. The
  handler thread ends there and the daemon goes on with an index that has the hash as a key
  and a catalog that has it in no entry.
\<close>

theorem image_before_config_breaks_index:
  "self_id joiner = None \<and> images joiner = [] \<and> net_info joiner = []
   \<and> action_image joiner 1 ''ff00'' picture ''a.png'' True
       = (joiner\<lparr>disk := [(''b.png'', \<lparr>phash = ''0f0f'', width = 2, height = 2, colours = 2, nbytes = 5\<rparr>),
                           (''a.png'', picture)],
                  images := [(''ff00'', ''p2/a.png'')]\<rparr>, Some AttributeError)"
  by (simp add: joiner_def action_image_def relay_def and_then_def admit_def addImage_def
      try_step_def write_image_def pil_save_def valid_ext_def suffix_to_prefix os_path_join_def
      set_discard_def get_id_def Let_def)

section \<open>Applying an update twice\<close>

subsection \<open>Lists as sets\<close>

lemma fold_set_discard: "fold set_discard rs L = filter (\<lambda>x. x \<notin> set rs) L"
proof (induction rs arbitrary: L)
  case Nil
  show ?case by simp
next
  case (Cons r rs)
  have r: "removeAll r L = filter (\<lambda>x. x \<noteq> r) L" by (induction L) auto
  have d: "set_discard r L = filter (\<lambda>x. x \<noteq> r) L" unfolding set_discard_def by (rule r)
  have "fold set_discard (r # rs) L = fold set_discard rs (set_discard r L)" by simp
  also have "\<dots> = filter (\<lambda>x. x \<notin> set rs) (filter (\<lambda>x. x \<noteq> r) L)"
    unfolding d by (rule Cons)
  also have "\<dots> = filter (\<lambda>x. x \<notin> set (r # rs)) L"
    by (induction L) auto
  finally show ?case .
qed

lemma fold_set_add:
  "\<exists>N. fold set_add as L = L @ N \<and> set N \<inter> set L = {} \<and> set N \<subseteq> set as \<and> set as \<subseteq> set L \<union> set N"
proof (induction as arbitrary: L)
  case Nil
  show ?case by simp
next
  case (Cons a as)
  show ?case
  proof (cases "a \<in> set L")
    case True
    then have s: "set_add a L = L" by (simp add: set_add_def)
    from Cons [of L] obtain N where N: "fold set_add as L = L @ N"
      "set N \<inter> set L = {}" "set N \<subseteq> set as" "set as \<subseteq> set L \<union> set N" by blast
    have "fold set_add (a # as) L = L @ N" using N(1) s by simp
    with N True show ?thesis by (intro exI [of _ N]) auto
  next
    case False
    then have s: "set_add a L = L @ [a]" by (simp add: set_add_def)
    from Cons [of "L @ [a]"] obtain N where N: "fold set_add as (L @ [a]) = (L @ [a]) @ N"
      "set N \<inter> set (L @ [a]) = {}" "set N \<subseteq> set as" "set as \<subseteq> set (L @ [a]) \<union> set N" by blast
    have "fold set_add (a # as) L = L @ (a # N)" using N(1) s by simp
    with N False show ?thesis by (intro exI [of _ "a # N"]) auto
  qed
qed

lemma add_then_discard_idem:
  "fold set_discard rs (fold set_add as (fold set_discard rs (fold set_add as L)))
     = fold set_discard rs (fold set_add as L)"
proof -
  from fold_set_add [of as L] obtain N where N: "fold set_add as L = L @ N" "set as \<subseteq> set L \<union> set N"
    by blast
  define L' where "L' = filter (\<lambda>x. x \<notin> set rs) (L @ N)"
  have one: "fold set_discard rs (fold set_add as L) = L'"
    by (simp only: fold_set_discard N(1) L'_def)
  from fold_set_add [of as L'] obtain N' where N': "fold set_add as L' = L' @ N'"
    "set N' \<inter> set L' = {}" "set N' \<subseteq> set as" by blast
  have "\<forall>n\<in>set N'. n \<in> set rs"
  proof
    fix n assume n: "n \<in> set N'"
    with N'(3) N(2) have "n \<in> set (L @ N)" by auto
    moreover from n N'(2) have "n \<notin> set L'" by auto
    ultimately show "n \<in> set rs" by (auto simp: L'_def)
  qed
  then have f1: "filter (\<lambda>x. x \<notin> set rs) N' = []" by (simp add: filter_empty_conv)
  have f2: "filter (\<lambda>x. x \<notin> set rs) L' = L'" by (simp add: L'_def)
  have "fold set_discard rs (fold set_add as L') = filter (\<lambda>x. x \<notin> set rs) (L' @ N')"
    by (simp only: fold_set_discard N'(1))
  also have "\<dots> = L'" using f1 f2 by simp
  finally show ?thesis by (simp only: one)
qed

subsection \<open>One delta and the entry of a peer\<close>

lemma entry_or_default_update:
  "entry_or_default (AList.update i v x) j = (if j = i then v else entry_or_default x j)"
  by (simp add: entry_or_default_def update_conv')

lemma addHash_fold_entry:
  "foldE (\<lambda>h c. addHash ord c i h) hs x = Inr x2 \<Longrightarrow>
     entry_or_default x2 j =
       (if j = i then (entry_or_default x i)\<lparr>hash := fold set_add hs (hash (entry_or_default x i))\<rparr>
        else entry_or_default x j)"
proof (induction hs arbitrary: x)
  case Nil
  then show ?case by simp
next
  case (Cons h hs)
  let ?x1 = "AList.update i ((entry_or_default x i)\<lparr>hash := set_add h (hash (entry_or_default x i))\<rparr>) x"
  from Cons.prems have "foldE (\<lambda>h c. addHash ord c i h) hs ?x1 = Inr x2" by (simp add: addHash_eq)
  from Cons.IH [OF this] show ?case by (simp add: entry_or_default_update)
qed

lemma removeHash_eq:
  "removeHash x i h = Inr x1 \<Longrightarrow>
     x1 = AList.update i ((entry_or_default x i)\<lparr>hash := set_discard h (hash (entry_or_default x i))\<rparr>) x
     \<and> i \<in> set (getIds ord x)"
  by (cases "map_of x i") (auto simp: removeHash_def dict_get_def entry_or_default_def keys_map_of)

lemma removeHash_fold_entry:
  "foldE (\<lambda>h c. removeHash c i h) hs x = Inr x2 \<Longrightarrow>
     entry_or_default x2 j =
       (if j = i then (entry_or_default x i)\<lparr>hash := fold set_discard hs (hash (entry_or_default x i))\<rparr>
        else entry_or_default x j)"
proof (induction hs arbitrary: x)
  case Nil
  then show ?case by simp
next
  case (Cons h hs)
  from Cons.prems obtain x1 where x1: "removeHash x i h = Inr x1"
    and r: "foldE (\<lambda>h c. removeHash c i h) hs x1 = Inr x2" by (auto simp: bindE_eq_Inr)
  from removeHash_eq [OF x1] Cons.IH [OF r] show ?case by (simp add: entry_or_default_update)
qed

lemma add_info_entry:
  assumes "add_info ord p x = Inr x1"
  shows "entry_or_default x1 j = add_entry j p (entry_or_default x j)"
proof -
  from assms obtain c1 c2 where
    c1: "(case d_addr (snd p) of None \<Rightarrow> Inr x | Some a \<Rightarrow> setAddr ord x (fst p) a) = Inr c1"
    and c2: "(case d_hash (snd p) of None \<Rightarrow> Inr c1
             | Some hs \<Rightarrow> foldE (\<lambda>h c'. addHash ord c' (fst p) h) hs c1) = Inr c2"
    and c3: "(case d_size (snd p) of None \<Rightarrow> Inr c2 | Some n \<Rightarrow> setSize ord c2 (fst p) n) = Inr x1"
    by (auto simp: add_info_def Let_def bindE_eq_Inr)
  have a: "entry_or_default c1 j = (if fst p \<noteq> j then entry_or_default x j
      else (case d_addr (snd p) of None \<Rightarrow> entry_or_default x j | Some a \<Rightarrow> (entry_or_default x j)\<lparr>addr := a\<rparr>))"
    using c1 by (cases "d_addr (snd p)") (auto simp: setAddr_eq entry_or_default_update)
  have b: "entry_or_default c2 j = (if fst p \<noteq> j then entry_or_default c1 j
      else (case d_hash (snd p) of None \<Rightarrow> entry_or_default c1 j
            | Some hs \<Rightarrow> (entry_or_default c1 j)\<lparr>hash := fold set_add hs (hash (entry_or_default c1 j))\<rparr>))"
  proof (cases "d_hash (snd p)")
    case None
    with c2 show ?thesis by simp
  next
    case (Some hs)
    with c2 have "foldE (\<lambda>h c'. addHash ord c' (fst p) h) hs c1 = Inr c2" by simp
    from addHash_fold_entry [OF this, of j] Some show ?thesis by auto
  qed
  have c: "entry_or_default x1 j = (if fst p \<noteq> j then entry_or_default c2 j
      else (case d_size (snd p) of None \<Rightarrow> entry_or_default c2 j | Some n \<Rightarrow> (entry_or_default c2 j)\<lparr>fsize := n\<rparr>))"
    using c3 by (cases "d_size (snd p)") (auto simp: setSize_eq entry_or_default_update)
  show ?thesis
  proof (cases "fst p = j")
    case False
    with a b c show ?thesis by (simp add: add_entry_def)
  next
    case True
    with a b c show ?thesis
      by (cases "d_addr (snd p)"; cases "d_hash (snd p)"; cases "d_size (snd p)")
         (simp_all add: add_entry_def Let_def)
  qed
qed

lemma rem_info_entry:
  assumes "rem_info ord p x = Inr x1"
  shows "entry_or_default x1 j = rem_entry j p (entry_or_default x j)"
proof -
  from assms obtain c1 c2 where
    c1: "(case d_addr (snd p) of None \<Rightarrow> Inr x | Some a \<Rightarrow> setAddr ord x (fst p) None) = Inr c1"
    and c2: "(case d_hash (snd p) of None \<Rightarrow> Inr c1
             | Some hs \<Rightarrow> foldE (\<lambda>h c'. removeHash c' (fst p) h) hs c1) = Inr c2"
    and c3: "(case d_size (snd p) of None \<Rightarrow> Inr c2 | Some n \<Rightarrow> setSize ord c2 (fst p) 0) = Inr x1"
    by (auto simp: rem_info_def Let_def bindE_eq_Inr)
  have a: "entry_or_default c1 j = (if fst p \<noteq> j then entry_or_default x j
      else (case d_addr (snd p) of None \<Rightarrow> entry_or_default x j | Some a \<Rightarrow> (entry_or_default x j)\<lparr>addr := None\<rparr>))"
    using c1 by (cases "d_addr (snd p)") (auto simp: setAddr_eq entry_or_default_update)
  have b: "entry_or_default c2 j = (if fst p \<noteq> j then entry_or_default c1 j
      else (case d_hash (snd p) of None \<Rightarrow> entry_or_default c1 j
            | Some hs \<Rightarrow> (entry_or_default c1 j)\<lparr>hash := fold set_discard hs (hash (entry_or_default c1 j))\<rparr>))"
  proof (cases "d_hash (snd p)")
    case None
    with c2 show ?thesis by simp
  next
    case (Some hs)
    with c2 have "foldE (\<lambda>h c'. removeHash c' (fst p) h) hs c1 = Inr c2" by simp
    from removeHash_fold_entry [OF this, of j] Some show ?thesis by auto
  qed
  have c: "entry_or_default x1 j = (if fst p \<noteq> j then entry_or_default c2 j
      else (case d_size (snd p) of None \<Rightarrow> entry_or_default c2 j | Some n \<Rightarrow> (entry_or_default c2 j)\<lparr>fsize := 0\<rparr>))"
    using c3 by (cases "d_size (snd p)") (auto simp: setSize_eq entry_or_default_update)
  show ?thesis
  proof (cases "fst p = j")
    case False
    with a b c show ?thesis by (simp add: rem_entry_def)
  next
    case True
    with a b c show ?thesis
      by (cases "d_addr (snd p)"; cases "d_hash (snd p)"; cases "d_size (snd p)")
         (simp_all add: rem_entry_def Let_def)
  qed
qed

lemma apply_add_entry:
  "foldE (add_info ord) add x = Inr x' \<Longrightarrow> entry_or_default x' j = fold (add_entry j) add (entry_or_default x j)"
proof (induction add arbitrary: x)
  case Nil
  then show ?case by simp
next
  case (Cons p ps)
  from Cons.prems obtain x1 where x1: "add_info ord p x = Inr x1" and r: "foldE (add_info ord) ps x1 = Inr x'"
    by (auto simp: bindE_eq_Inr)
  from Cons.IH [OF r] add_info_entry [OF x1, of j] show ?case by simp
qed

lemma apply_rem_entry:
  "foldE (rem_info ord) rem x = Inr x' \<Longrightarrow> entry_or_default x' j = fold (rem_entry j) rem (entry_or_default x j)"
proof (induction rem arbitrary: x)
  case Nil
  then show ?case by simp
next
  case (Cons p ps)
  from Cons.prems obtain x1 where x1: "rem_info ord p x = Inr x1" and r: "foldE (rem_info ord) ps x1 = Inr x'"
    by (auto simp: bindE_eq_Inr)
  from Cons.IH [OF r] rem_info_entry [OF x1, of j] show ?case by simp
qed

lemma addHash_fold_eq:
  "foldE (\<lambda>h c'. addHash ord c' i h) hs c =
     Inr (if hs = [] then c
          else AList.update i ((entry_or_default c i)\<lparr>hash := fold set_add hs (hash (entry_or_default c i))\<rparr>) c)"
proof (induction hs arbitrary: c)
  case Nil
  show ?case by simp
next
  case (Cons h hs)
  let ?c1 = "AList.update i ((entry_or_default c i)\<lparr>hash := set_add h (hash (entry_or_default c i))\<rparr>) c"
  have step: "addHash ord c i h = Inr ?c1" by (rule addHash_eq)
  have "foldE (\<lambda>h c'. addHash ord c' i h) (h # hs) c = foldE (\<lambda>h c'. addHash ord c' i h) hs ?c1"
    unfolding foldE.simps step bindE_Inr ..
  also have "\<dots> = Inr (if hs = [] then ?c1
          else AList.update i ((entry_or_default ?c1 i)\<lparr>hash := fold set_add hs (hash (entry_or_default ?c1 i))\<rparr>) ?c1)"
    by (rule Cons)
  also have "\<dots> = Inr (AList.update i ((entry_or_default c i)\<lparr>hash := fold set_add (h # hs) (hash (entry_or_default c i))\<rparr>) c)"
    by simp
  finally show ?case by simp
qed

lemma removeHash_fold_eq:
  "i \<in> fst ` set c \<Longrightarrow> foldE (\<lambda>h c'. removeHash c' i h) hs c =
     Inr (if hs = [] then c
          else AList.update i ((entry_or_default c i)\<lparr>hash := fold set_discard hs (hash (entry_or_default c i))\<rparr>) c)"
proof (induction hs arbitrary: c)
  case Nil
  show ?case by simp
next
  case (Cons h hs)
  let ?c1 = "AList.update i ((entry_or_default c i)\<lparr>hash := set_discard h (hash (entry_or_default c i))\<rparr>) c"
  from Cons.prems have step: "removeHash c i h = Inr ?c1"
    by (cases "map_of c i") (auto simp: removeHash_def dict_get_def entry_or_default_def keys_map_of)
  have k: "i \<in> fst ` set ?c1" by (simp add: dom_update)
  have "foldE (\<lambda>h c'. removeHash c' i h) (h # hs) c = foldE (\<lambda>h c'. removeHash c' i h) hs ?c1"
    unfolding foldE.simps step bindE_Inr ..
  also have "\<dots> = Inr (if hs = [] then ?c1
          else AList.update i ((entry_or_default ?c1 i)\<lparr>hash := fold set_discard hs (hash (entry_or_default ?c1 i))\<rparr>) ?c1)"
    by (rule Cons.IH [OF k])
  also have "\<dots> = Inr (AList.update i ((entry_or_default c i)\<lparr>hash := fold set_discard (h # hs) (hash (entry_or_default c i))\<rparr>) c)"
    by simp
  finally show ?case by simp
qed

lemma removeHash_fold_missing:
  "i \<notin> fst ` set c \<Longrightarrow> hs \<noteq> [] \<Longrightarrow> foldE (\<lambda>h c'. removeHash c' i h) hs c = Inl KeyError"
  by (cases hs; cases "map_of c i") (auto simp: removeHash_def dict_get_def keys_map_of)

lemma add_info_eq:
  "add_info ord p c = Inr (if writes_entry p then touch (fst p, add_entry (fst p) p) c else c)"
proof (cases "d_hash (snd p)")
  case None
  then show ?thesis
    by (cases "d_addr (snd p)"; cases "d_size (snd p)")
       (simp_all add: add_info_def Let_def writes_entry_def add_entry_def touch_def setAddr_eq setSize_eq)
next
  case (Some hs)
  then show ?thesis
    by (cases "d_addr (snd p)"; cases "d_size (snd p)"; cases "hs = []")
       (simp_all add: add_info_def Let_def writes_entry_def add_entry_def touch_def setAddr_eq setSize_eq
          addHash_fold_eq)
qed

lemma rem_info_eq:
  "rem_info ord p c =
     (if rem_raises c p then Inl KeyError
      else Inr (if writes_entry p then touch (fst p, rem_entry (fst p) p) c else c))"
proof (cases "d_hash (snd p)")
  case None
  then show ?thesis
    by (cases "d_addr (snd p)"; cases "d_size (snd p)")
       (simp_all add: rem_info_def Let_def writes_entry_def rem_raises_def rem_entry_def touch_def
          setAddr_eq setSize_eq)
next
  case (Some hs)
  show ?thesis
  proof (cases "hs = []")
    case True
    with Some show ?thesis
      by (cases "d_addr (snd p)"; cases "d_size (snd p)")
         (simp_all add: rem_info_def Let_def writes_entry_def rem_raises_def rem_entry_def touch_def
            setAddr_eq setSize_eq)
  next
    case ne: False
    show ?thesis
    proof (cases "d_addr (snd p)")
      case (Some a)
      have k: "fst p \<in> fst ` set (AList.update (fst p) v c)" for v by (simp add: dom_update)
      from Some \<open>d_hash (snd p) = Some hs\<close> ne show ?thesis
        by (cases "d_size (snd p)")
           (simp_all add: rem_info_def Let_def writes_entry_def rem_raises_def rem_entry_def touch_def
              setAddr_eq setSize_eq removeHash_fold_eq [OF k])
    next
      case None
      show ?thesis
      proof (cases "fst p \<in> fst ` set c")
        case True
        from None \<open>d_hash (snd p) = Some hs\<close> ne True show ?thesis
          by (cases "d_size (snd p)")
             (simp_all add: rem_info_def Let_def writes_entry_def rem_raises_def rem_entry_def touch_def
                setSize_eq removeHash_fold_eq [OF True])
      next
        case False
        from None \<open>d_hash (snd p) = Some hs\<close> ne False show ?thesis
          by (simp add: rem_info_def Let_def rem_raises_def removeHash_fold_missing [OF False ne])
      qed
    qed
  qed
qed

subsection \<open>Both loops as a sequence of writes to entries\<close>

lemma apply_add_run: "apply_add ord add c = Inr (fold touch (add_ops add) c)"
  unfolding apply_add_def
proof (induction add arbitrary: c)
  case Nil
  show ?case by (simp add: add_ops_def)
next
  case (Cons p ps)
  define c1 where "c1 = (if writes_entry p then touch (fst p, add_entry (fst p) p) c else c)"
  have "foldE (add_info ord) (p # ps) c = foldE (add_info ord) ps c1"
    unfolding foldE.simps add_info_eq [of ord p c] bindE_Inr c1_def ..
  also have "\<dots> = Inr (fold touch (add_ops ps) c1)" by (rule Cons)
  also have "fold touch (add_ops ps) c1 = fold touch (add_ops (p # ps)) c"
    by (simp add: add_ops_def c1_def)
  finally show ?case .
qed

lemma touch_keys: "fst ` set (touch op c) = insert (fst op) (fst ` set c)"
  by (simp add: touch_def dom_update)

lemma touch_inplace: "fst op \<in> fst ` set c \<Longrightarrow> map fst (touch op c) = map fst c"
  by (simp add: touch_def update_keys)

lemma touch_entry:
  "entry_or_default (touch op c) j = (if fst op = j then snd op (entry_or_default c j) else entry_or_default c j)"
  by (auto simp: touch_def entry_or_default_def update_conv')

lemma touch_distinct: "distinct (map fst c) \<Longrightarrow> distinct (map fst (touch op c))"
  by (simp add: touch_def distinct_update)

lemma run_keys: "fst ` set (fold touch ops c) = fst ` set ops \<union> fst ` set c"
  by (induction ops arbitrary: c) (auto simp: touch_keys)

lemma run_inplace: "fst ` set ops \<subseteq> fst ` set c \<Longrightarrow> map fst (fold touch ops c) = map fst c"
proof (induction ops arbitrary: c)
  case Nil
  show ?case by simp
next
  case (Cons op ops)
  from Cons.prems have a: "fst op \<in> fst ` set c" by simp
  from Cons.prems have "fst ` set ops \<subseteq> fst ` set (touch op c)" by (auto simp: touch_keys)
  from Cons.IH [OF this] touch_inplace [OF a] show ?case by simp
qed

lemma run_entry:
  "entry_or_default (fold touch ops c) j
     = fold (\<lambda>op e. if fst op = j then snd op e else e) ops (entry_or_default c j)"
  by (induction ops arbitrary: c) (simp_all add: touch_entry)

lemma run_distinct: "distinct (map fst c) \<Longrightarrow> distinct (map fst (fold touch ops c))"
  by (induction ops arbitrary: c) (simp_all add: touch_distinct)

lemma alist_eqI:
  "distinct (map fst x) \<Longrightarrow> map fst x = map fst y \<Longrightarrow> (\<forall>k\<in>fst ` set x. map_of x k = map_of y k)
   \<Longrightarrow> x = y"
proof (induction x arbitrary: y)
  case Nil
  then show ?case by simp
next
  case (Cons a x)
  from Cons.prems(2) obtain b y' where y: "y = b # y'" "fst a = fst b" "map fst x = map fst y'"
    by (cases y) auto
  have "fst a \<in> fst ` set (a # x)" by simp
  from Cons.prems(3) [THEN bspec, OF this] y have "map_of (a # x) (fst a) = map_of (b # y') (fst a)" by simp
  with y(2) have s: "snd a = snd b" by (cases a; cases b) simp
  have "\<forall>k\<in>fst ` set x. map_of x k = map_of y' k"
  proof
    fix k assume k: "k \<in> fst ` set x"
    have "fst a \<notin> fst ` set x" using Cons.prems(1) by simp
    with k have ne: "k \<noteq> fst a" by blast
    from k have "k \<in> fst ` set (a # x)" by simp
    from Cons.prems(3) [THEN bspec, OF this] have "map_of (a # x) k = map_of y k" .
    with ne y show "map_of x k = map_of y' k" by (cases a; cases b) simp
  qed
  from Cons.IH [OF _ y(3) this] Cons.prems(1) have "x = y'" by simp
  with y s show ?case by (cases a; cases b) simp
qed

lemma catalog_eqI:
  assumes "distinct (map fst x)" "map fst x = map fst y"
    and "\<And>j. entry_or_default x j = entry_or_default y j"
  shows "x = y"
proof (rule alist_eqI [OF assms(1,2)], rule ballI)
  fix k assume k: "k \<in> fst ` set x"
  then obtain e where e: "map_of x k = Some e" by (auto simp: keys_map_of)
  from k assms(2) have "k \<in> fst ` set y" by (metis set_map)
  then obtain e' where e': "map_of y k = Some e'" by (auto simp: keys_map_of)
  from assms(3) [of k] e e' show "map_of x k = map_of y k" by (simp add: entry_or_default_def)
qed

text \<open>A sequence of writes whose effect on every entry is idempotent is idempotent on a dictionary.\<close>

lemma run_idem:
  assumes d: "distinct (map fst c)"
    and f: "\<And>j e. fold (\<lambda>op e. if fst op = j then snd op e else e) ops
                    (fold (\<lambda>op e. if fst op = j then snd op e else e) ops e)
                  = fold (\<lambda>op e. if fst op = j then snd op e else e) ops e"
  shows "fold touch ops (fold touch ops c) = fold touch ops c"
proof (rule catalog_eqI)
  have "fst ` set ops \<subseteq> fst ` set (fold touch ops c)" by (simp add: run_keys)
  from run_inplace [OF this] show "map fst (fold touch ops (fold touch ops c)) = map fst (fold touch ops c)" .
  have "distinct (map fst (fold touch ops c))" using d by (rule run_distinct)
  then show "distinct (map fst (fold touch ops (fold touch ops c)))" by (rule run_distinct)
  fix j
  show "entry_or_default (fold touch ops (fold touch ops c)) j = entry_or_default (fold touch ops c) j"
    by (simp only: run_entry f)
qed

subsection \<open>The effect of both loops on one entry\<close>

lemma add_entry_noop: "\<not> writes_entry p \<Longrightarrow> add_entry j p e = e"
  by (cases "d_hash (snd p)") (auto simp: writes_entry_def add_entry_def)

lemma rem_entry_noop: "\<not> writes_entry p \<Longrightarrow> rem_entry j p e = e"
  by (cases "d_hash (snd p)") (auto simp: writes_entry_def rem_entry_def)

lemma add_entry_other: "fst p \<noteq> j \<Longrightarrow> add_entry j p e = e"
  by (simp add: add_entry_def)

lemma rem_entry_other: "fst p \<noteq> j \<Longrightarrow> rem_entry j p e = e"
  by (simp add: rem_entry_def)

lemma fold_add_ops:
  "fold (\<lambda>op e. if fst op = j then snd op e else e) (add_ops add) e = fold (add_entry j) add e"
proof (induction add arbitrary: e)
  case Nil
  show ?case by (simp add: add_ops_def)
next
  case (Cons p ps)
  have "fold (\<lambda>op e. if fst op = j then snd op e else e) (add_ops (p # ps)) e
      = fold (\<lambda>op e. if fst op = j then snd op e else e) (add_ops ps) (add_entry j p e)"
    by (cases "writes_entry p"; cases "fst p = j")
       (simp_all add: add_ops_def add_entry_noop add_entry_other)
  with Cons [of "add_entry j p e"] show ?case by simp
qed

lemma fold_rem_ops:
  "fold (\<lambda>op e. if fst op = j then snd op e else e) (rem_ops rem) e = fold (rem_entry j) rem e"
proof (induction rem arbitrary: e)
  case Nil
  show ?case by (simp add: rem_ops_def)
next
  case (Cons p ps)
  have "fold (\<lambda>op e. if fst op = j then snd op e else e) (rem_ops (p # ps)) e
      = fold (\<lambda>op e. if fst op = j then snd op e else e) (rem_ops ps) (rem_entry j p e)"
    by (cases "writes_entry p"; cases "fst p = j")
       (simp_all add: rem_ops_def rem_entry_noop rem_entry_other)
  with Cons [of "rem_entry j p e"] show ?case by simp
qed

text \<open>
  The add loop sets or keeps the address and the size of an entry and adds hashes to its
  hash-set; the remove loop sets or keeps address and size and discards hashes.
\<close>

lemma add_entry_shape:
  "\<exists>ga as gs. ((\<forall>x. ga x = x) \<or> (\<forall>x y. ga x = ga y)) \<and> ((\<forall>x. gs x = x) \<or> (\<forall>x y. gs x = gs y))
     \<and> (\<forall>e. add_entry j p e = \<lparr>addr = ga (addr e), hash = fold set_add as (hash e), fsize = gs (fsize e)\<rparr>)"
proof (cases "fst p = j")
  case False
  then show ?thesis
    by (intro exI [of _ "\<lambda>x. x"] exI [of _ "[]"]) (simp add: add_entry_def)
next
  case True
  define ga where "ga = (case d_addr (snd p) of None \<Rightarrow> (\<lambda>x. x) | Some a \<Rightarrow> (\<lambda>x. a))"
  define as where "as = (case d_hash (snd p) of None \<Rightarrow> [] | Some hs \<Rightarrow> hs)"
  define gs where "gs = (case d_size (snd p) of None \<Rightarrow> (\<lambda>x. x) | Some n \<Rightarrow> (\<lambda>x. n))"
  have a: "(\<forall>x. ga x = x) \<or> (\<forall>x y. ga x = ga y)" by (cases "d_addr (snd p)") (simp_all add: ga_def)
  have s: "(\<forall>x. gs x = x) \<or> (\<forall>x y. gs x = gs y)" by (cases "d_size (snd p)") (simp_all add: gs_def)
  have "add_entry j p e = \<lparr>addr = ga (addr e), hash = fold set_add as (hash e), fsize = gs (fsize e)\<rparr>" for e
    using True
    by (cases "d_addr (snd p)"; cases "d_hash (snd p)"; cases "d_size (snd p)")
       (simp_all add: add_entry_def ga_def as_def gs_def)
  with a s show ?thesis by blast
qed

lemma rem_entry_shape:
  "\<exists>ga rs gs. ((\<forall>x. ga x = x) \<or> (\<forall>x y. ga x = ga y)) \<and> ((\<forall>x. gs x = x) \<or> (\<forall>x y. gs x = gs y))
     \<and> (\<forall>e. rem_entry j p e = \<lparr>addr = ga (addr e), hash = fold set_discard rs (hash e), fsize = gs (fsize e)\<rparr>)"
proof (cases "fst p = j")
  case False
  then show ?thesis
    by (intro exI [of _ "\<lambda>x. x"] exI [of _ "[]"]) (simp add: rem_entry_def)
next
  case True
  define ga where "ga = (case d_addr (snd p) of None \<Rightarrow> (\<lambda>x. x) | Some a \<Rightarrow> (\<lambda>x. None :: address))"
  define rs where "rs = (case d_hash (snd p) of None \<Rightarrow> [] | Some hs \<Rightarrow> hs)"
  define gs where "gs = (case d_size (snd p) of None \<Rightarrow> (\<lambda>x. x) | Some n \<Rightarrow> (\<lambda>x. 0 :: int))"
  have a: "(\<forall>x. ga x = x) \<or> (\<forall>x y. ga x = ga y)" by (cases "d_addr (snd p)") (simp_all add: ga_def)
  have s: "(\<forall>x. gs x = x) \<or> (\<forall>x y. gs x = gs y)" by (cases "d_size (snd p)") (simp_all add: gs_def)
  have "rem_entry j p e = \<lparr>addr = ga (addr e), hash = fold set_discard rs (hash e), fsize = gs (fsize e)\<rparr>" for e
    using True
    by (cases "d_addr (snd p)"; cases "d_hash (snd p)"; cases "d_size (snd p)")
       (simp_all add: rem_entry_def ga_def rs_def gs_def)
  with a s show ?thesis by blast
qed

lemma keep_or_set_comp:
  assumes "(\<forall>x. g x = x) \<or> (\<forall>x y. g x = g y)" "(\<forall>x. g' x = x) \<or> (\<forall>x y. g' x = g' y)"
  shows "(\<forall>x. g' (g x) = x) \<or> (\<forall>x y. g' (g x) = g' (g y))"
  using assms by metis

lemma add_fold_shape:
  "\<exists>ga as gs. ((\<forall>x. ga x = x) \<or> (\<forall>x y. ga x = ga y)) \<and> ((\<forall>x. gs x = x) \<or> (\<forall>x y. gs x = gs y))
     \<and> (\<forall>e. fold (add_entry j) ps e = \<lparr>addr = ga (addr e), hash = fold set_add as (hash e), fsize = gs (fsize e)\<rparr>)"
proof (induction ps)
  case Nil
  show ?case by (intro exI [of _ "\<lambda>x. x"] exI [of _ "[]"]) simp
next
  case (Cons p ps)
  from add_entry_shape [of j p] obtain ga as gs where 1:
    "(\<forall>x. ga x = x) \<or> (\<forall>x y. ga x = ga y)" "(\<forall>x. gs x = x) \<or> (\<forall>x y. gs x = gs y)"
    "\<And>e. add_entry j p e = \<lparr>addr = ga (addr e), hash = fold set_add as (hash e), fsize = gs (fsize e)\<rparr>"
    by blast
  from Cons obtain ga' as' gs' where 2:
    "(\<forall>x. ga' x = x) \<or> (\<forall>x y. ga' x = ga' y)" "(\<forall>x. gs' x = x) \<or> (\<forall>x y. gs' x = gs' y)"
    "\<And>e. fold (add_entry j) ps e = \<lparr>addr = ga' (addr e), hash = fold set_add as' (hash e), fsize = gs' (fsize e)\<rparr>"
    by blast
  have "fold (add_entry j) (p # ps) e
      = \<lparr>addr = ga' (ga (addr e)), hash = fold set_add (as @ as') (hash e), fsize = gs' (gs (fsize e))\<rparr>" for e
    by (simp add: 1(3) 2(3))
  with keep_or_set_comp [OF 1(1) 2(1)] keep_or_set_comp [OF 1(2) 2(2)] show ?case
    by (intro exI [of _ "\<lambda>x. ga' (ga x)"] exI [of _ "as @ as'"] exI [of _ "\<lambda>x. gs' (gs x)"]) simp
qed

lemma rem_fold_shape:
  "\<exists>ga rs gs. ((\<forall>x. ga x = x) \<or> (\<forall>x y. ga x = ga y)) \<and> ((\<forall>x. gs x = x) \<or> (\<forall>x y. gs x = gs y))
     \<and> (\<forall>e. fold (rem_entry j) ps e = \<lparr>addr = ga (addr e), hash = fold set_discard rs (hash e), fsize = gs (fsize e)\<rparr>)"
proof (induction ps)
  case Nil
  show ?case by (intro exI [of _ "\<lambda>x. x"] exI [of _ "[]"]) simp
next
  case (Cons p ps)
  from rem_entry_shape [of j p] obtain ga rs gs where 1:
    "(\<forall>x. ga x = x) \<or> (\<forall>x y. ga x = ga y)" "(\<forall>x. gs x = x) \<or> (\<forall>x y. gs x = gs y)"
    "\<And>e. rem_entry j p e = \<lparr>addr = ga (addr e), hash = fold set_discard rs (hash e), fsize = gs (fsize e)\<rparr>"
    by blast
  from Cons obtain ga' rs' gs' where 2:
    "(\<forall>x. ga' x = x) \<or> (\<forall>x y. ga' x = ga' y)" "(\<forall>x. gs' x = x) \<or> (\<forall>x y. gs' x = gs' y)"
    "\<And>e. fold (rem_entry j) ps e = \<lparr>addr = ga' (addr e), hash = fold set_discard rs' (hash e), fsize = gs' (fsize e)\<rparr>"
    by blast
  have "fold (rem_entry j) (p # ps) e
      = \<lparr>addr = ga' (ga (addr e)), hash = fold set_discard (rs @ rs') (hash e), fsize = gs' (gs (fsize e))\<rparr>" for e
    by (simp add: 1(3) 2(3))
  with keep_or_set_comp [OF 1(1) 2(1)] keep_or_set_comp [OF 1(2) 2(2)] show ?case
    by (intro exI [of _ "\<lambda>x. ga' (ga x)"] exI [of _ "rs @ rs'"] exI [of _ "\<lambda>x. gs' (gs x)"]) simp
qed

lemma entry_idem:
  "fold (rem_entry j) rem (fold (add_entry j) add (fold (rem_entry j) rem (fold (add_entry j) add e)))
     = fold (rem_entry j) rem (fold (add_entry j) add e)"
proof -
  from add_fold_shape [of j add] obtain ga as gs where 1:
    "(\<forall>x. ga x = x) \<or> (\<forall>x y. ga x = ga y)" "(\<forall>x. gs x = x) \<or> (\<forall>x y. gs x = gs y)"
    "\<And>e. fold (add_entry j) add e = \<lparr>addr = ga (addr e), hash = fold set_add as (hash e), fsize = gs (fsize e)\<rparr>"
    by blast
  from rem_fold_shape [of j rem] obtain ga' rs gs' where 2:
    "(\<forall>x. ga' x = x) \<or> (\<forall>x y. ga' x = ga' y)" "(\<forall>x. gs' x = x) \<or> (\<forall>x y. gs' x = gs' y)"
    "\<And>e. fold (rem_entry j) rem e = \<lparr>addr = ga' (addr e), hash = fold set_discard rs (hash e), fsize = gs' (fsize e)\<rparr>"
    by blast
  have a: "ga' (ga (ga' (ga x))) = ga' (ga x)" for x using 1(1) 2(1) by metis
  have s: "gs' (gs (gs' (gs x))) = gs' (gs x)" for x using 1(2) 2(2) by metis
  show ?thesis by (simp add: 1(3) 2(3) a s add_then_discard_idem)
qed

subsection \<open>The remove loop and its exception\<close>

lemma for_each_cases:
  assumes "for_each f xs s = (s', r)"
  shows "(r = None \<and> foldE f xs s = Inr s')
     \<or> (\<exists>e pre x post. r = Some e \<and> xs = pre @ x # post \<and> foldE f pre s = Inr s' \<and> f x s' = Inl e)"
  using assms
proof (induction xs arbitrary: s)
  case Nil
  then show ?case by simp
next
  case (Cons x xs)
  show ?case
  proof (cases "f x s")
    case (Inl e)
    with Cons.prems have "s' = s" "r = Some e" by (simp_all add: try_step_def and_then_def)
    with Inl have "r = Some e \<and> x # xs = [] @ x # xs \<and> foldE f [] s = Inr s' \<and> f x s' = Inl e" by simp
    then show ?thesis by blast
  next
    case (Inr s1)
    with Cons.prems have "for_each f xs s1 = (s', r)" by (simp add: try_step_def and_then_def)
    from Cons.IH [OF this] show ?thesis
    proof (elim disjE exE conjE)
      assume "r = None" "foldE f xs s1 = Inr s'"
      with Inr show ?thesis by simp
    next
      fix e pre y post
      assume "r = Some e" "xs = pre @ y # post" "foldE f pre s1 = Inr s'" "f y s' = Inl e"
      with Inr have "r = Some e \<and> x # xs = (x # pre) @ y # post \<and> foldE f (x # pre) s = Inr s' \<and> f y s' = Inl e"
        by simp
      then show ?thesis by blast
    qed
  qed
qed

lemma for_each_raises:
  "foldE f pre s = Inr s' \<Longrightarrow> f x s' = Inl e \<Longrightarrow> for_each f (pre @ x # post) s = (s', Some e)"
proof (induction pre arbitrary: s)
  case Nil
  then show ?case by (simp add: try_step_def and_then_def)
next
  case (Cons y pre)
  from Cons.prems(1) obtain s1 where s1: "f y s = Inr s1" "foldE f pre s1 = Inr s'"
    by (auto simp: bindE_eq_Inr)
  from Cons.IH [OF s1(2) Cons.prems(2)] s1(1) show ?case by (simp add: try_step_def and_then_def)
qed

lemma rem_run:
  "foldE (rem_info ord) rem c = Inr c' \<Longrightarrow> c' = fold touch (rem_ops rem) c"
proof (induction rem arbitrary: c)
  case Nil
  then show ?case by (simp add: rem_ops_def)
next
  case (Cons p ps)
  from Cons.prems obtain c1 where c1: "rem_info ord p c = Inr c1" and r: "foldE (rem_info ord) ps c1 = Inr c'"
    by (auto simp: bindE_eq_Inr)
  from c1 have "c1 = (if writes_entry p then touch (fst p, rem_entry (fst p) p) c else c)"
    unfolding rem_info_eq [of ord p c] by (simp split: if_splits)
  with Cons.IH [OF r] show ?case by (simp add: rem_ops_def)
qed

lemma rem_ops_keys: "fst ` set (rem_ops rem) = fst ` {p \<in> set rem. writes_entry p}"
  by (simp add: rem_ops_def image_image)

lemma add_ops_keys: "fst ` set (add_ops add) = fst ` {p \<in> set add. writes_entry p}"
  by (simp add: add_ops_def image_image)

lemma rem_run_present:
  "fst ` set (rem_ops rem) \<subseteq> fst ` set c \<Longrightarrow> foldE (rem_info ord) rem c = Inr (fold touch (rem_ops rem) c)"
proof (induction rem arbitrary: c)
  case Nil
  show ?case by (simp add: rem_ops_def)
next
  case (Cons p ps)
  define c1 where "c1 = (if writes_entry p then touch (fst p, rem_entry (fst p) p) c else c)"
  have nr: "\<not> rem_raises c p"
  proof
    assume a: "rem_raises c p"
    then have "writes_entry p" by (simp add: rem_raises_def writes_entry_def)
    with Cons.prems have "fst p \<in> fst ` set c" unfolding rem_ops_keys by auto
    with a show False by (simp add: rem_raises_def)
  qed
  have step: "rem_info ord p c = Inr c1" unfolding rem_info_eq [of ord p c] c1_def using nr by simp
  have "fst ` set c \<subseteq> fst ` set c1" by (auto simp: c1_def touch_keys)
  with Cons.prems have "fst ` set (rem_ops ps) \<subseteq> fst ` set c1" unfolding rem_ops_keys by auto
  from Cons.IH [OF this] have "foldE (rem_info ord) ps c1 = Inr (fold touch (rem_ops ps) c1)" .
  moreover have "foldE (rem_info ord) (p # ps) c = foldE (rem_info ord) ps c1"
    unfolding foldE.simps step bindE_Inr ..
  moreover have "fold touch (rem_ops ps) c1 = fold touch (rem_ops (p # ps)) c"
    by (simp add: rem_ops_def c1_def)
  ultimately show ?case by simp
qed

text \<open>A run of both loops whose remove loop comes through, repeated on its result, changes nothing.\<close>

lemma update_run_idem:
  assumes d: "distinct (map fst c)"
    and a: "apply_add ord add c = Inr ca"
    and r: "foldE (rem_info ord) rem ca = Inr c1"
  shows "\<exists>ca'. apply_add ord add c1 = Inr ca' \<and> foldE (rem_info ord) rem ca' = Inr c1"
proof -
  define ops where "ops = add_ops add @ rem_ops rem"
  from a have ca: "ca = fold touch (add_ops add) c" by (simp add: apply_add_run)
  from rem_run [OF r] ca have c1: "c1 = fold touch ops c" by (simp add: ops_def)
  have f: "fold (\<lambda>op e. if fst op = j then snd op e else e) ops e
      = fold (rem_entry j) rem (fold (add_entry j) add e)" for j e
    by (simp add: ops_def fold_add_ops fold_rem_ops)
  have idem: "fold touch ops c1 = c1"
    unfolding c1 by (rule run_idem [OF d]) (simp only: f entry_idem)
  define ca' where "ca' = fold touch (add_ops add) c1"
  have a': "apply_add ord add c1 = Inr ca'" by (simp add: apply_add_run ca'_def)
  have "fst ` set (rem_ops rem) \<subseteq> fst ` set c1" by (auto simp: c1 run_keys ops_def)
  also have "\<dots> \<subseteq> fst ` set ca'" by (auto simp: ca'_def run_keys)
  finally have "foldE (rem_info ord) rem ca' = Inr (fold touch (rem_ops rem) ca')"
    by (rule rem_run_present)
  also have "fold touch (rem_ops rem) ca' = fold touch ops c1" by (simp add: ops_def ca'_def)
  finally have "foldE (rem_info ord) rem ca' = Inr c1" by (simp only: idem)
  with a' show ?thesis by blast
qed

lemma update_twice:
  assumes d: "distinct (map fst c)" and u: "apply_update ord add rem c = (c1, r)"
  shows "apply_update ord add rem c1 = (c1, r)"
proof -
  from apply_add_total [of ord add c] obtain ca where a: "apply_add ord add c = Inr ca" by blast
  with u have fe: "for_each (rem_info ord) rem ca = (c1, r)"
    by (simp add: apply_update_def apply_rem_def try_step_def and_then_def)
  from for_each_cases [OF fe] show ?thesis
  proof (elim disjE exE conjE)
    assume n: "r = None" and s: "foldE (rem_info ord) rem ca = Inr c1"
    from update_run_idem [OF d a s] obtain ca' where
      "apply_add ord add c1 = Inr ca'" "foldE (rem_info ord) rem ca' = Inr c1" by blast
    with for_each_Inr [of "rem_info ord" rem ca' c1] n show ?thesis
      by (simp add: apply_update_def apply_rem_def try_step_def and_then_def)
  next
    fix e pre x post
    assume e: "r = Some e" and sp: "rem = pre @ x # post"
      and s: "foldE (rem_info ord) pre ca = Inr c1" and x: "rem_info ord x c1 = Inl e"
    from update_run_idem [OF d a s] obtain ca' where
      a': "apply_add ord add c1 = Inr ca'" and s': "foldE (rem_info ord) pre ca' = Inr c1" by blast
    from for_each_raises [OF s' x, of post] sp e a' show ?thesis
      by (simp add: apply_update_def apply_rem_def try_step_def and_then_def)
  qed
qed

subsection \<open>What the remove loop leaves of the add loop\<close>

lemma update_entry:
  assumes "apply_update ord add rem c = (c1, None)"
  shows "entry_or_default c1 j = fold (rem_entry j) rem (fold (add_entry j) add (entry_or_default c j))"
proof -
  from apply_add_total [of ord add c] obtain ca where a: "apply_add ord add c = Inr ca" by blast
  with assms have fe: "for_each (rem_info ord) rem ca = (c1, None)"
    by (simp add: apply_update_def apply_rem_def try_step_def and_then_def)
  from for_each_cases [OF fe] have "foldE (rem_info ord) rem ca = Inr c1" by auto
  from rem_run [OF this] a have "c1 = fold touch (rem_ops rem) (fold touch (add_ops add) c)"
    by (simp add: apply_add_run)
  then show ?thesis by (simp add: run_entry fold_add_ops fold_rem_ops)
qed

lemma rem_entry_hash: "set (hash (rem_entry j p e)) \<subseteq> set (hash e)"
  by (cases "d_addr (snd p)"; cases "d_hash (snd p)"; cases "d_size (snd p)")
     (auto simp: rem_entry_def fold_set_discard)

lemma rem_fold_hash: "set (hash (fold (rem_entry j) ps e)) \<subseteq> set (hash e)"
proof (induction ps arbitrary: e)
  case Nil
  show ?case by simp
next
  case (Cons p ps)
  from Cons [of "rem_entry j p e"] rem_entry_hash [of j p e] show ?case by auto
qed

lemma rem_fold_discards:
  "p \<in> set ps \<Longrightarrow> fst p = j \<Longrightarrow> d_hash (snd p) = Some hs
   \<Longrightarrow> set hs \<inter> set (hash (fold (rem_entry j) ps e)) = {}"
proof (induction ps arbitrary: e)
  case Nil
  then show ?case by simp
next
  case (Cons q ps)
  show ?case
  proof (cases "q = p")
    case True
    have "set hs \<inter> set (hash (rem_entry j p e)) = {}"
      using Cons.prems(2,3)
      by (cases "d_addr (snd p)"; cases "d_size (snd p)") (auto simp: rem_entry_def fold_set_discard)
    with rem_fold_hash [of j ps "rem_entry j p e"] True show ?thesis by auto
  next
    case False
    with Cons.prems have "p \<in> set ps" by simp
    from Cons.IH [OF this Cons.prems(2,3), of "rem_entry j q e"] show ?thesis by simp
  qed
qed

lemma rem_entry_addr: "addr e = None \<Longrightarrow> addr (rem_entry j p e) = None"
  by (cases "d_addr (snd p)"; cases "d_hash (snd p)"; cases "d_size (snd p)") (simp_all add: rem_entry_def)

lemma rem_entry_size: "fsize e = 0 \<Longrightarrow> fsize (rem_entry j p e) = 0"
  by (cases "d_addr (snd p)"; cases "d_hash (snd p)"; cases "d_size (snd p)") (simp_all add: rem_entry_def)

lemma rem_fold_addr_keep: "addr e = None \<Longrightarrow> addr (fold (rem_entry j) ps e) = None"
  by (induction ps arbitrary: e) (simp_all add: rem_entry_addr)

lemma rem_fold_size_keep: "fsize e = 0 \<Longrightarrow> fsize (fold (rem_entry j) ps e) = 0"
  by (induction ps arbitrary: e) (simp_all add: rem_entry_size)

lemma rem_fold_addr:
  "p \<in> set ps \<Longrightarrow> fst p = j \<Longrightarrow> d_addr (snd p) \<noteq> None \<Longrightarrow> addr (fold (rem_entry j) ps e) = None"
proof (induction ps arbitrary: e)
  case Nil
  then show ?case by simp
next
  case (Cons q ps)
  show ?case
  proof (cases "q = p")
    case True
    have "addr (rem_entry j p e) = None"
      using Cons.prems(2,3)
      by (cases "d_addr (snd p)"; cases "d_hash (snd p)"; cases "d_size (snd p)") (simp_all add: rem_entry_def)
    from rem_fold_addr_keep [OF this] True show ?thesis by simp
  next
    case False
    with Cons.prems have "p \<in> set ps" by simp
    from Cons.IH [OF this Cons.prems(2,3), of "rem_entry j q e"] show ?thesis by simp
  qed
qed

lemma rem_fold_size:
  "p \<in> set ps \<Longrightarrow> fst p = j \<Longrightarrow> d_size (snd p) \<noteq> None \<Longrightarrow> fsize (fold (rem_entry j) ps e) = 0"
proof (induction ps arbitrary: e)
  case Nil
  then show ?case by simp
next
  case (Cons q ps)
  show ?case
  proof (cases "q = p")
    case True
    have "fsize (rem_entry j p e) = 0"
      using Cons.prems(2,3)
      by (cases "d_addr (snd p)"; cases "d_hash (snd p)"; cases "d_size (snd p)") (simp_all add: rem_entry_def)
    from rem_fold_size_keep [OF this] True show ?thesis by simp
  next
    case False
    with Cons.prems have "p \<in> set ps" by simp
    from Cons.IH [OF this Cons.prems(2,3), of "rem_entry j q e"] show ?thesis by simp
  qed
qed

lemma rem_fold_other: "j \<notin> fst ` set ps \<Longrightarrow> fold (rem_entry j) ps e = e"
  by (induction ps arbitrary: e) (auto simp: rem_entry_other)

lemma set_fold_set_add: "set (fold set_add as L) = set L \<union> set as"
  by (induction as arbitrary: L) (auto simp: set_add_def)

lemma add_entry_hash: "set (hash e) \<subseteq> set (hash (add_entry j p e))"
  by (cases "d_addr (snd p)"; cases "d_hash (snd p)"; cases "d_size (snd p)")
     (auto simp: add_entry_def set_fold_set_add)

lemma add_fold_hash: "set (hash e) \<subseteq> set (hash (fold (add_entry j) ps e))"
proof (induction ps arbitrary: e)
  case Nil
  show ?case by simp
next
  case (Cons p ps)
  from Cons [of "add_entry j p e"] add_entry_hash [of e j p] show ?case by auto
qed

lemma add_fold_adds:
  "p \<in> set ps \<Longrightarrow> fst p = j \<Longrightarrow> d_hash (snd p) = Some hs
   \<Longrightarrow> set hs \<subseteq> set (hash (fold (add_entry j) ps e))"
proof (induction ps arbitrary: e)
  case Nil
  then show ?case by simp
next
  case (Cons q ps)
  show ?case
  proof (cases "q = p")
    case True
    have "set hs \<subseteq> set (hash (add_entry j p e))"
      using Cons.prems(2,3)
      by (cases "d_addr (snd p)"; cases "d_size (snd p)") (auto simp: add_entry_def set_fold_set_add)
    with add_fold_hash [of "add_entry j p e" j ps] True show ?thesis by auto
  next
    case False
    with Cons.prems have "p \<in> set ps" by simp
    from Cons.IH [OF this Cons.prems(2,3), of "add_entry j q e"] show ?thesis by simp
  qed
qed

subsection \<open>Each mutator twice\<close>

lemma setAddr_twice: "bindE (setAddr ord c i a) (\<lambda>c'. setAddr ord c' i a) = setAddr ord c i a"
  by (simp add: setAddr_eq)

lemma setSize_twice: "bindE (setSize ord c i n) (\<lambda>c'. setSize ord c' i n) = setSize ord c i n"
  by (simp add: setSize_eq)

lemma addHash_twice: "bindE (addHash ord c i h) (\<lambda>c'. addHash ord c' i h) = addHash ord c i h"
  by (simp add: addHash_eq set_add_def)

lemma removeHash_twice: "bindE (removeHash c i h) (\<lambda>c'. removeHash c' i h) = removeHash c i h"
  by (cases "map_of c i") (simp_all add: removeHash_def dict_get_def update_conv' set_discard_def)

text \<open>
  C8. The deltas of one \<^verbatim>\<open>update\<close> message, applied to the catalog the first application
  left, leave that catalog as it is, and end in the same way: without an exception, or with
  the \<^verbatim>\<open>KeyError\<close> of the same remove-delta. Each of the four mutators, called twice with
  the same arguments, does what one call does. One application runs the whole add loop and
  then the remove loop on its result; so at the end every remove-delta has its way, also
  against an add-delta of the same message for the same peer: its hashes are in no hash-set
  of that peer, an address it names is empty, a size it names is 0. The hashes of an
  add-delta for a peer that no remove-delta names are in the hash-set of that peer.
\<close>

theorem update_idempotent:
  assumes "distinct (map fst c)"
  shows "(\<forall>c1 r. apply_update ord add rem c = (c1, r) \<longrightarrow> apply_update ord add rem c1 = (c1, r))
    \<and> bindE (setAddr ord c i a) (\<lambda>c'. setAddr ord c' i a) = setAddr ord c i a
    \<and> bindE (addHash ord c i h) (\<lambda>c'. addHash ord c' i h) = addHash ord c i h
    \<and> bindE (removeHash c i h) (\<lambda>c'. removeHash c' i h) = removeHash c i h
    \<and> bindE (setSize ord c i n) (\<lambda>c'. setSize ord c' i n) = setSize ord c i n
    \<and> (\<exists>ca. apply_add ord add c = Inr ca \<and> apply_update ord add rem c = apply_rem ord rem ca)
    \<and> (\<forall>c1. apply_update ord add rem c = (c1, None) \<longrightarrow>
         (\<forall>p\<in>set rem.
             (\<forall>hs. d_hash (snd p) = Some hs \<longrightarrow> set hs \<inter> set (hash (entry_or_default c1 (fst p))) = {})
           \<and> (d_addr (snd p) \<noteq> None \<longrightarrow> addr (entry_or_default c1 (fst p)) = None)
           \<and> (d_size (snd p) \<noteq> None \<longrightarrow> fsize (entry_or_default c1 (fst p)) = 0))
       \<and> (\<forall>p\<in>set add. fst p \<notin> fst ` set rem \<longrightarrow>
             (\<forall>hs. d_hash (snd p) = Some hs \<longrightarrow> set hs \<subseteq> set (hash (entry_or_default c1 (fst p))))))"
proof -
  have 1: "\<forall>c1 r. apply_update ord add rem c = (c1, r) \<longrightarrow> apply_update ord add rem c1 = (c1, r)"
    using update_twice [OF assms] by blast
  from apply_add_total [of ord add c] obtain ca where ca: "apply_add ord add c = Inr ca" by blast
  then have "apply_update ord add rem c = apply_rem ord rem ca"
    by (simp add: apply_update_def try_step_def and_then_def)
  with ca have 2: "\<exists>ca. apply_add ord add c = Inr ca \<and> apply_update ord add rem c = apply_rem ord rem ca"
    by blast
  have 3: "\<forall>c1. apply_update ord add rem c = (c1, None) \<longrightarrow>
         (\<forall>p\<in>set rem.
             (\<forall>hs. d_hash (snd p) = Some hs \<longrightarrow> set hs \<inter> set (hash (entry_or_default c1 (fst p))) = {})
           \<and> (d_addr (snd p) \<noteq> None \<longrightarrow> addr (entry_or_default c1 (fst p)) = None)
           \<and> (d_size (snd p) \<noteq> None \<longrightarrow> fsize (entry_or_default c1 (fst p)) = 0))
       \<and> (\<forall>p\<in>set add. fst p \<notin> fst ` set rem \<longrightarrow>
             (\<forall>hs. d_hash (snd p) = Some hs \<longrightarrow> set hs \<subseteq> set (hash (entry_or_default c1 (fst p)))))"
  proof (intro allI impI conjI ballI)
    fix c1 p hs
    assume u: "apply_update ord add rem c = (c1, None)" and p: "p \<in> set rem"
      and h: "d_hash (snd p) = Some hs"
    show "set hs \<inter> set (hash (entry_or_default c1 (fst p))) = {}"
      unfolding update_entry [OF u] by (rule rem_fold_discards [OF p refl h])
  next
    fix c1 p
    assume u: "apply_update ord add rem c = (c1, None)" and p: "p \<in> set rem"
      and h: "d_addr (snd p) \<noteq> None"
    show "addr (entry_or_default c1 (fst p)) = None"
      unfolding update_entry [OF u] by (rule rem_fold_addr [OF p refl h])
  next
    fix c1 p
    assume u: "apply_update ord add rem c = (c1, None)" and p: "p \<in> set rem"
      and h: "d_size (snd p) \<noteq> None"
    show "fsize (entry_or_default c1 (fst p)) = 0"
      unfolding update_entry [OF u] by (rule rem_fold_size [OF p refl h])
  next
    fix c1 p hs
    assume u: "apply_update ord add rem c = (c1, None)" and p: "p \<in> set add"
      and n: "fst p \<notin> fst ` set rem" and h: "d_hash (snd p) = Some hs"
    show "set hs \<subseteq> set (hash (entry_or_default c1 (fst p)))"
      unfolding update_entry [OF u] rem_fold_other [OF n] by (rule add_fold_adds [OF p refl h])
  qed
  from 1 setAddr_twice [of ord c i a] addHash_twice [of ord c i h] removeHash_twice [of c i h]
    setSize_twice [of ord c i n] 2 3
  show ?thesis by (intro conjI)
qed

theorem update_idempotent_witness:
  "distinct (map fst cfg)
   \<and> apply_update slot_order
        [(2, \<lparr>d_addr = None, d_hash = Some [''0f0f''], d_size = Some 5\<rparr>),
         (3, \<lparr>d_addr = Some (Some (''localhost'', 5002)), d_hash = None, d_size = None\<rparr>)]
        [(1, \<lparr>d_addr = None, d_hash = Some [''ff00''], d_size = Some 7\<rparr>)] cfg
      = ([(1, \<lparr>addr = Some (''localhost'', 5000), hash = [], fsize = 0\<rparr>),
          (2, \<lparr>addr = Some (''localhost'', 5001), hash = [''0f0f''], fsize = 5\<rparr>),
          (3, \<lparr>addr = Some (''localhost'', 5002), hash = [], fsize = 0\<rparr>)], None)
   \<and> apply_update slot_order
        [(2, \<lparr>d_addr = None, d_hash = Some [''0f0f''], d_size = Some 5\<rparr>),
         (3, \<lparr>d_addr = Some (Some (''localhost'', 5002)), d_hash = None, d_size = None\<rparr>)]
        [(1, \<lparr>d_addr = None, d_hash = Some [''ff00''], d_size = Some 7\<rparr>)]
        [(1, \<lparr>addr = Some (''localhost'', 5000), hash = [], fsize = 0\<rparr>),
         (2, \<lparr>addr = Some (''localhost'', 5001), hash = [''0f0f''], fsize = 5\<rparr>),
         (3, \<lparr>addr = Some (''localhost'', 5002), hash = [], fsize = 0\<rparr>)]
      = ([(1, \<lparr>addr = Some (''localhost'', 5000), hash = [], fsize = 0\<rparr>),
          (2, \<lparr>addr = Some (''localhost'', 5001), hash = [''0f0f''], fsize = 5\<rparr>),
          (3, \<lparr>addr = Some (''localhost'', 5002), hash = [], fsize = 0\<rparr>)], None)
   \<and> apply_update slot_order [] [(9, \<lparr>d_addr = None, d_hash = Some [''ff00''], d_size = Some 7\<rparr>)] cfg
      = (cfg, Some KeyError)"
proof -
  let ?add = "[(2, \<lparr>d_addr = None, d_hash = Some [''0f0f''], d_size = Some 5\<rparr>),
         (3, \<lparr>d_addr = Some (Some (''localhost'', 5002)), d_hash = None, d_size = None\<rparr>)]"
  let ?rem = "[(1, \<lparr>d_addr = None, d_hash = Some [''ff00''], d_size = Some 7\<rparr>)]"
  let ?c1 = "[(1, \<lparr>addr = Some (''localhost'', 5000), hash = [], fsize = 0\<rparr>),
          (2, \<lparr>addr = Some (''localhost'', 5001), hash = [''0f0f''], fsize = 5\<rparr>),
          (3, \<lparr>addr = Some (''localhost'', 5002), hash = [], fsize = 0\<rparr>)]"
  have d: "distinct (map fst cfg)" by (simp add: cfg_def)
  have once: "apply_update slot_order ?add ?rem cfg = (?c1, None)"
    by (simp add: apply_update_def apply_add_def apply_rem_def try_step_def and_then_def cfg_def
        add_info_eq rem_info_eq writes_entry_def rem_raises_def touch_def
        add_entry_def rem_entry_def entry_or_default_def default_entry_def set_add_def
        set_discard_def Let_def)
  have fails: "apply_update slot_order [] [(9, \<lparr>d_addr = None, d_hash = Some [''ff00''], d_size = Some 7\<rparr>)] cfg
      = (cfg, Some KeyError)"
    by (simp add: apply_update_def apply_add_def apply_rem_def try_step_def and_then_def cfg_def
        rem_info_eq rem_raises_def)
  from update_idempotent [OF d, THEN conjunct1, THEN spec, THEN spec, THEN mp, OF once]
  have twice: "apply_update slot_order ?add ?rem ?c1 = (?c1, None)" .
  from d once twice fails show ?thesis by (intro conjI)
qed

end
